theory Spec2Isabelle
  imports Complex_Main
begin

section \<open>Strings and numbers of the host language\<close>

text \<open>
  Strings are byte lists holding UTF-8. The white space that \<open>String.prototype.trim\<close>
  and \<open>parseInt\<close> strip is the language's \<open>WhiteSpace\<close> and \<open>LineTerminator\<close>: tab,
  line feed, vertical tab, form feed, carriage return, space, U+00A0, U+1680, U+2000 to
  U+200A, U+2028, U+2029, U+202F, U+205F, U+3000 and U+FEFF, each here in its encoding.
\<close>

definition white_space :: "string list" where
  "white_space =
     [[CHR 0x09], [CHR 0x0A], [CHR 0x0B], [CHR 0x0C], [CHR 0x0D], [CHR 0x20],
      [CHR 0xC2, CHR 0xA0],
      [CHR 0xE1, CHR 0x9A, CHR 0x80],
      [CHR 0xE2, CHR 0x80, CHR 0x80], [CHR 0xE2, CHR 0x80, CHR 0x81],
      [CHR 0xE2, CHR 0x80, CHR 0x82], [CHR 0xE2, CHR 0x80, CHR 0x83],
      [CHR 0xE2, CHR 0x80, CHR 0x84], [CHR 0xE2, CHR 0x80, CHR 0x85],
      [CHR 0xE2, CHR 0x80, CHR 0x86], [CHR 0xE2, CHR 0x80, CHR 0x87],
      [CHR 0xE2, CHR 0x80, CHR 0x88], [CHR 0xE2, CHR 0x80, CHR 0x89],
      [CHR 0xE2, CHR 0x80, CHR 0x8A],
      [CHR 0xE2, CHR 0x80, CHR 0xA8], [CHR 0xE2, CHR 0x80, CHR 0xA9],
      [CHR 0xE2, CHR 0x80, CHR 0xAF],
      [CHR 0xE2, CHR 0x81, CHR 0x9F],
      [CHR 0xE3, CHR 0x80, CHR 0x80],
      [CHR 0xEF, CHR 0xBB, CHR 0xBF]]"

text \<open>
  The number of bytes of the white-space character a text begins with, given the
  encodings to look for; 0 when it begins with none.
\<close>

definition ws_len :: "string list \<Rightarrow> string \<Rightarrow> nat" where
  "ws_len wss s =
     (case filter (\<lambda>ws. ws \<noteq> [] \<and> take (length ws) s = ws) wss of
        [] \<Rightarrow> 0
      | ws # rest \<Rightarrow> length ws)"

function strip :: "string list \<Rightarrow> string \<Rightarrow> string" where
  "strip wss s = (if ws_len wss s = 0 then s else strip wss (drop (ws_len wss s) s))"
  by pat_completeness auto
termination
proof (relation "measure (\<lambda>(wss, s). length s)")
  show "wf (measure (\<lambda>(wss, s). length s))" by simp
next
  fix wss :: "string list" and s :: string
  assume n: "ws_len wss s \<noteq> 0"
  then obtain ws rest where
    f: "filter (\<lambda>ws. ws \<noteq> [] \<and> take (length ws) s = ws) wss = ws # rest"
    by (cases "filter (\<lambda>ws. ws \<noteq> [] \<and> take (length ws) s = ws) wss")
      (auto simp: ws_len_def)
  then have "ws \<in> set (filter (\<lambda>ws. ws \<noteq> [] \<and> take (length ws) s = ws) wss)"
    by simp
  then have "ws \<noteq> []" "take (length ws) s = ws" by simp_all
  then have "s \<noteq> []" by auto
  moreover have "ws_len wss s = length ws" using f by (simp add: ws_len_def)
  ultimately show "((wss, drop (ws_len wss s) s), (wss, s)) \<in> measure (\<lambda>(wss, s). length s)"
    using \<open>ws \<noteq> []\<close> by simp
qed

declare strip.simps [simp del]

definition trim_start :: "string \<Rightarrow> string" where
  "trim_start s = strip white_space s"

definition trim :: "string \<Rightarrow> string" where
  "trim s = rev (strip (map rev white_space) (rev (trim_start s)))"

text \<open>\<open>s.split(c)\<close> for a one-character separator: never empty, \<open>"".split(c) = [""]\<close>.\<close>

fun split_on :: "char \<Rightarrow> string \<Rightarrow> string list" where
  "split_on c [] = [[]]"
| "split_on c (x # xs) =
     (if x = c then [] # split_on c xs
      else (case split_on c xs of
              p # ps \<Rightarrow> (x # p) # ps
            | [] \<Rightarrow> [[x]]))"

text \<open>\<open>Array.prototype.indexOf\<close>: the first position, or -1.\<close>

fun indexOf :: "'a list \<Rightarrow> 'a \<Rightarrow> int" where
  "indexOf [] x = -1"
| "indexOf (y # ys) x =
     (if y = x then 0
      else (let r = indexOf ys x in if r = -1 then -1 else r + 1))"

text \<open>
  The numbers that reach the read loop come from \<open>parseInt(_, 10)\<close>: an integer or NaN.
  (Beyond \<open>2^53\<close> the host rounds; such an index lies past every log either way.)
\<close>

datatype jsnum = Num int | NaN

definition is_digit :: "char \<Rightarrow> bool" where
  "is_digit c = (48 \<le> (of_char c :: nat) \<and> (of_char c :: nat) \<le> 57)"

definition digit_val :: "char \<Rightarrow> int" where
  "digit_val c = int (of_char c) - 48"

definition parseInt10 :: "string \<Rightarrow> jsnum" where
  "parseInt10 s =
     (let t = trim_start s;
          neg = (t \<noteq> [] \<and> hd t = CHR ''-'');
          u = (if t \<noteq> [] \<and> (hd t = CHR ''-'' \<or> hd t = CHR ''+'') then tl t else t);
          ds = takeWhile is_digit u
      in if ds = [] then NaN
         else Num ((if neg then -1 else 1) * foldl (\<lambda>a c. 10 * a + digit_val c) 0 ds))"

text \<open>Thrown values: the class of the exception and its message.\<close>

datatype js_error =
    Error string
  | TypeError string
  | AbortError string
  | Thrown_value string

fun error_message :: "js_error \<Rightarrow> string" where
  "error_message (Error m) = m"
| "error_message (TypeError m) = m"
| "error_message (AbortError m) = m"
| "error_message (Thrown_value s) = s"

section \<open>Shared types\<close>

text \<open>
  \<open>StreamResponse\<close> carries a \<open>type\<close> tag and, by tag, the SDK message or the error text.
  The SDK message is opaque to the program: a type parameter.
\<close>

datatype 'd StreamResponse =
    Claude_json 'd
  | Error_msg string
  | Done
  | Aborted

datatype RequestStatus = IN_PROGRESS | COMPLETED | FAILED | ABORTED | NOT_FOUND

record 'd ResumeResponse =
  messages :: "'d StreamResponse list"
  resume_totalMessages :: nat
  isComplete :: bool

record StatusResponse =
  status_requestId :: string
  status_status :: RequestStatus
  status_totalMessages :: nat
  status_lastUpdated :: int

text \<open>
  \<open>JSON.stringify\<close> and \<open>JSON.parse\<close> on stream responses belong to the host, so they
  are parameters. \<open>parse\<close> gives \<open>None\<close> where \<open>JSON.parse\<close> throws.
\<close>

record 'd JSON =
  stringify :: "'d StreamResponse \<Rightarrow> string"
  parse :: "string \<Rightarrow> 'd StreamResponse option"

text \<open>
  What the host guarantees of them: parsing a serialised object gives it back, and the
  serialisation of an object is one line from \<open>{\<close> to \<open>}\<close> (line feeds inside strings
  are escaped).
\<close>

definition json_faithful :: "'d JSON \<Rightarrow> bool" where
  "json_faithful J =
     (\<forall>m. parse J (stringify J m) = Some m
        \<and> stringify J m \<noteq> []
        \<and> hd (stringify J m) = CHR ''{''
        \<and> last (stringify J m) = CHR ''}''
        \<and> CHR 0x0A \<notin> set (stringify J m))"

section \<open>Streaming file manager\<close>

record StreamingFileInfo =
  requestId :: string
  filePath :: string
  status :: RequestStatus
  totalMessages :: nat
  lastUpdated :: int

text \<open>
  The module state and the runtime it is handed: the \<open>requestStatuses\<close> map in insertion
  order (the order \<open>entries()\<close> walks), the shared map of abort controllers (its keys),
  the environment, the text files by path, and, for each file operation of the runtime
  that the program awaits, the paths at which it rejects: creating a directory,
  appending to a file, reading a file, removing a file. A rejection is an exception of
  the runtime; its message here names the operation.
  Times are milliseconds; each operation is handed the reading of the clock it takes.
\<close>

record world =
  requestStatuses :: "(string \<times> StreamingFileInfo) list"
  requestAbortControllers :: "string set"
  getEnv :: "string \<Rightarrow> string option"
  files :: "string \<rightharpoonup> string"
  ensureDir_fails :: "string set"
  append_fails :: "string set"
  read_fails :: "string set"
  remove_fails :: "string set"

definition CLEANUP_INTERVAL_MS :: int where
  "CLEANUP_INTERVAL_MS = 5 * 60 * 1000"

text \<open>\<open>Map.prototype.set\<close>, \<open>get\<close> (\<open>map_of\<close>) and \<open>delete\<close> on the ordered map.\<close>

fun map_set :: "'k \<Rightarrow> 'v \<Rightarrow> ('k \<times> 'v) list \<Rightarrow> ('k \<times> 'v) list" where
  "map_set k v [] = [(k, v)]"
| "map_set k v ((k', v') # kvs) =
     (if k' = k then (k, v) # kvs else (k', v') # map_set k v kvs)"

definition map_delete :: "'k \<Rightarrow> ('k \<times> 'v) list \<Rightarrow> ('k \<times> 'v) list" where
  "map_delete k kvs = filter (\<lambda>kv. fst kv \<noteq> k) kvs"

definition getStreamingDir :: "world \<Rightarrow> string \<Rightarrow> js_error + string" where
  "getStreamingDir w encodedProjectName =
     (case getEnv w ''HOME'' of
        None \<Rightarrow> Inl (Error ''HOME environment variable not found'')
      | Some homeDir \<Rightarrow>
          if homeDir = [] then Inl (Error ''HOME environment variable not found'')
          else Inr (homeDir @ ''/.claude/projects/'' @ encodedProjectName @ ''/streaming''))"

definition getStreamingFilePath :: "world \<Rightarrow> string \<Rightarrow> string \<Rightarrow> js_error + string" where
  "getStreamingFilePath w encodedProjectName rid =
     (case getStreamingDir w encodedProjectName of
        Inl e \<Rightarrow> Inl e
      | Inr streamingDir \<Rightarrow> Inr (streamingDir @ ''/'' @ rid @ ''.jsonl''))"

definition ensureDir :: "string \<Rightarrow> world \<Rightarrow> js_error + world" where
  "ensureDir dir w =
     (if dir \<in> ensureDir_fails w then Inl (Error ''ensureDir failed'') else Inr w)"

definition initializeStreaming :: "int \<Rightarrow> string \<Rightarrow> string \<Rightarrow> world \<Rightarrow> js_error + world" where
  "initializeStreaming now encodedProjectName rid w =
     (case getStreamingDir w encodedProjectName of
        Inl e \<Rightarrow> Inl e
      | Inr streamingDir \<Rightarrow>
          (case ensureDir streamingDir w of
             Inl e \<Rightarrow> Inl e
           | Inr w1 \<Rightarrow>
               (case getStreamingFilePath w1 encodedProjectName rid of
                  Inl e \<Rightarrow> Inl e
                | Inr path \<Rightarrow>
                    Inr (w1\<lparr>requestStatuses :=
                              map_set rid
                                \<lparr>requestId = rid, filePath = path, status = IN_PROGRESS,
                                 totalMessages = 0, lastUpdated = now\<rparr>
                                (requestStatuses w1)\<rparr>))))"

fun status_after :: "'d StreamResponse \<Rightarrow> RequestStatus \<Rightarrow> RequestStatus" where
  "status_after Done s = COMPLETED"
| "status_after (Error_msg e) s = FAILED"
| "status_after Aborted s = ABORTED"
| "status_after (Claude_json d) s = s"

definition appendTextFile :: "string \<Rightarrow> string \<Rightarrow> world \<Rightarrow> js_error + world" where
  "appendTextFile path text w =
     (if path \<in> append_fails w then Inl (Error ''appendTextFile failed'')
      else Inr (w\<lparr>files := (files w)(path \<mapsto> (case files w path of
                                                  None \<Rightarrow> text
                                                | Some old \<Rightarrow> old @ text))\<rparr>))"

definition appendMessage ::
  "'d JSON \<Rightarrow> int \<Rightarrow> string \<Rightarrow> string \<Rightarrow> 'd StreamResponse \<Rightarrow> world \<Rightarrow> js_error + world" where
  "appendMessage J now encodedProjectName rid message w =
     (case getStreamingFilePath w encodedProjectName rid of
        Inl e \<Rightarrow> Inl e
      | Inr path \<Rightarrow>
          (case map_of (requestStatuses w) rid of
             None \<Rightarrow> Inl (Error (''Request '' @ rid @ '' not initialized''))
           | Some info \<Rightarrow>
               (case appendTextFile path (stringify J message @ [CHR 0x0A]) w of
                  Inl e \<Rightarrow> Inl e
                | Inr w1 \<Rightarrow>
                    Inr (w1\<lparr>requestStatuses :=
                              map_set rid
                                (info\<lparr>totalMessages := totalMessages info + 1,
                                      lastUpdated := now,
                                      status := status_after message (status info)\<rparr>)
                                (requestStatuses w1)\<rparr>))))"

text \<open>
  The read loop \<open>for (let i = fromIndex; i < lines.length; i++)\<close>. At a negative index
  \<open>lines[i]\<close> is undefined and \<open>JSON.parse\<close> throws, which the loop catches like any
  malformed line.
\<close>

function read_from :: "'d JSON \<Rightarrow> string list \<Rightarrow> int \<Rightarrow> 'd StreamResponse list" where
  "read_from J lines i =
     (if i < int (length lines) then
        (case (if 0 \<le> i then parse J (lines ! nat i) else None) of
           Some message \<Rightarrow> message # read_from J lines (i + 1)
         | None \<Rightarrow> read_from J lines (i + 1))
      else [])"
  by pat_completeness auto
termination
  by (relation "measure (\<lambda>(J, lines, i). nat (int (length lines) - i))") auto

declare read_from.simps [simp del]

definition file_lines :: "string \<Rightarrow> string list" where
  "file_lines content = filter (\<lambda>line. trim line \<noteq> []) (split_on (CHR 0x0A) (trim content))"

definition readTextFile :: "string \<Rightarrow> world \<Rightarrow> js_error + string" where
  "readTextFile path w =
     (if path \<in> read_fails w then Inl (Error ''readTextFile failed'')
      else (case files w path of
              None \<Rightarrow> Inl (Error ''readTextFile failed'')
            | Some content \<Rightarrow> Inr content))"

definition readStreamingFile ::
  "'d JSON \<Rightarrow> world \<Rightarrow> string \<Rightarrow> string \<Rightarrow> jsnum \<Rightarrow> js_error + 'd StreamResponse list" where
  "readStreamingFile J w encodedProjectName rid fromIndex =
     (case getStreamingFilePath w encodedProjectName rid of
        Inl e \<Rightarrow> Inl e
      | Inr path \<Rightarrow>
          if files w path = None then Inr []
          else
            (case readTextFile path w of
               Inl e \<Rightarrow> Inl e
             | Inr content \<Rightarrow>
                 (case fromIndex of
                    NaN \<Rightarrow> Inr []
                  | Num i \<Rightarrow> Inr (read_from J (file_lines content) i))))"

definition getRequestStatus :: "world \<Rightarrow> string \<Rightarrow> StreamingFileInfo option" where
  "getRequestStatus w rid = map_of (requestStatuses w) rid"

section \<open>Resume and status handlers\<close>

datatype 'd Response =
    Json_error string nat
  | Json_resume "'d ResumeResponse"
  | Json_status StatusResponse

definition handleResumeRequest ::
  "'d JSON \<Rightarrow> world \<Rightarrow> string \<Rightarrow> string option \<Rightarrow> 'd Response" where
  "handleResumeRequest J w rid query =
     (let fromIndex = parseInt10 (case query of
                                    None \<Rightarrow> ''0''
                                  | Some q \<Rightarrow> if q = [] then ''0'' else q)
      in if rid = [] then Json_error ''Request ID is required'' 400
         else
           (case getRequestStatus w rid of
              None \<Rightarrow> Json_error ''Request not found'' 404
            | Some info \<Rightarrow>
                (let pathParts = split_on (CHR ''/'') (filePath info);
                     projectsIndex = indexOf pathParts ''projects''
                 in if projectsIndex = -1 \<or> projectsIndex + 2 \<ge> int (length pathParts)
                    then Json_error ''Invalid file path structure'' 500
                    else
                      (let encodedProjectName = pathParts ! nat (projectsIndex + 1)
                       in case readStreamingFile J w encodedProjectName rid fromIndex of
                            Inl e \<Rightarrow> Json_error ''Failed to read streaming data'' 500
                          | Inr msgs \<Rightarrow>
                              Json_resume \<lparr>messages = msgs,
                                           resume_totalMessages = totalMessages info,
                                           isComplete = (status info \<noteq> IN_PROGRESS)\<rparr>))))"

definition handleStatusRequest :: "int \<Rightarrow> world \<Rightarrow> string \<Rightarrow> 'd Response" where
  "handleStatusRequest now w rid =
     (if rid = [] then Json_error ''Request ID is required'' 400
      else
        (case getRequestStatus w rid of
           None \<Rightarrow>
             Json_status \<lparr>status_requestId = rid, status_status = NOT_FOUND,
                          status_totalMessages = 0, status_lastUpdated = now\<rparr>
         | Some info \<Rightarrow>
             Json_status \<lparr>status_requestId = rid, status_status = status info,
                          status_totalMessages = totalMessages info,
                          status_lastUpdated = lastUpdated info\<rparr>))"

section \<open>Cleanup sweeper\<close>

text \<open>\<open>runtime.remove\<close> throws for a path it cannot delete or that is not there.\<close>

definition runtime_remove :: "string \<Rightarrow> world \<Rightarrow> js_error + world" where
  "runtime_remove path w =
     (if path \<in> remove_fails w \<or> files w path = None then Inl (Error ''remove failed'')
      else Inr (w\<lparr>files := (files w)(path := None)\<rparr>))"

text \<open>The body of the second loop of \<open>cleanupExpiredFiles\<close>, for one expired request.\<close>

definition evict :: "string \<Rightarrow> world \<Rightarrow> world" where
  "evict rid w =
     (case map_of (requestStatuses w) rid of
        None \<Rightarrow> w
      | Some info \<Rightarrow>
          (let w1 = (case runtime_remove (filePath info) w of
                       Inl e \<Rightarrow> w
                     | Inr w' \<Rightarrow> w')
           in w1\<lparr>requestStatuses := map_delete rid (requestStatuses w1)\<rparr>))"

definition cleanupExpiredFiles :: "int \<Rightarrow> world \<Rightarrow> world" where
  "cleanupExpiredFiles now w =
     (let expiredRequests =
            map fst (filter (\<lambda>(rid, info). now - lastUpdated info > CLEANUP_INTERVAL_MS
                                           \<and> status info \<noteq> IN_PROGRESS)
                            (requestStatuses w))
      in foldl (\<lambda>w' rid. evict rid w') w expiredRequests)"

section \<open>Chat handler\<close>

definition uri_unreserved :: "char \<Rightarrow> bool" where
  "uri_unreserved c =
     (let n = (of_char c :: nat)
      in (65 \<le> n \<and> n \<le> 90) \<or> (97 \<le> n \<and> n \<le> 122) \<or> (48 \<le> n \<and> n \<le> 57)
         \<or> c \<in> set ''-_.!~*()'' \<or> c = CHR 0x27)"

definition hex_digit :: "nat \<Rightarrow> char" where
  "hex_digit n = ''0123456789ABCDEF'' ! (n mod 16)"

definition encodeURIComponent :: "string \<Rightarrow> string" where
  "encodeURIComponent s =
     concat (map (\<lambda>c. if uri_unreserved c then [c]
                       else [CHR ''%'', hex_digit (of_char c div 16), hex_digit (of_char c mod 16)]) s)"

definition getEncodedProjectName :: "string option \<Rightarrow> string option" where
  "getEncodedProjectName workingDirectory =
     (case workingDirectory of
        None \<Rightarrow> None
      | Some d \<Rightarrow>
          if d = [] then None
          else Some (encodeURIComponent (map (\<lambda>c. if c = CHR ''/'' then CHR ''_'' else c) d)))"

text \<open>
  The engine (\<open>query\<close> of the SDK) is opaque: a run of it is the messages it yields, each
  with the clock reading at which the handler appends it, and then either its normal end
  or the exception it throws. The prompt, the session handle, the allowed tools and the
  execution configuration only go into the engine. The temporary clearing of the API key
  in subscription mode is undone in the \<open>finally\<close> block and is left out.
\<close>

datatype engine_end = Completes | Throws js_error

record 'd engine =
  sdkMessages :: "(int \<times> 'd) list"
  ending :: engine_end
  ended_at :: int

text \<open>\<open>if (encodedProjectName) await appendMessage(...)\<close>.\<close>

definition write_if_project ::
  "'d JSON \<Rightarrow> int \<Rightarrow> string option \<Rightarrow> string \<Rightarrow> 'd StreamResponse \<Rightarrow> world \<Rightarrow> js_error + world" where
  "write_if_project J now encodedProjectName rid message w =
     (case encodedProjectName of
        None \<Rightarrow> Inr w
      | Some p \<Rightarrow> if p = [] then Inr w else appendMessage J now p rid message w)"

text \<open>
  The consumer of the generator is the loop of \<open>handleChatRequest\<close>, which enqueues
  every response on the response stream. Once the client is gone \<open>enqueue\<close> throws, the
  loop is left and the generator is returned: it goes on from the \<open>yield\<close> at which it
  stands to its \<open>finally\<close> block and nowhere else. \<open>gone_at = Some n\<close> says that this
  happens at the yield number \<open>n\<close> (from 0) if the run gets there, \<open>None\<close> that it never
  happens.

  How a part of the generator ends: at its end, by an exception, or by that return.
\<close>

datatype outcome = Finished | Raised js_error | Returned

text \<open>
  A part's run: every response it yields, paired with the world as it stands at that
  \<open>yield\<close>; the world at its end; how it ends.
\<close>

type_synonym 'd progress = "('d StreamResponse \<times> world) list \<times> world \<times> outcome"

text \<open>The loop over the engine's messages; \<open>k\<close> numbers the next yield.\<close>

fun stream_loop ::
  "'d JSON \<Rightarrow> nat option \<Rightarrow> nat \<Rightarrow> string option \<Rightarrow> string \<Rightarrow> (int \<times> 'd) list \<Rightarrow> world
     \<Rightarrow> 'd progress" where
  "stream_loop J gone_at k encodedProjectName rid [] w = ([], w, Finished)"
| "stream_loop J gone_at k encodedProjectName rid ((now, sdkMessage) # rest) w =
     (case write_if_project J now encodedProjectName rid (Claude_json sdkMessage) w of
        Inl e \<Rightarrow> ([], w, Raised e)
      | Inr w' \<Rightarrow>
          if gone_at = Some k then ([(Claude_json sdkMessage, w')], w', Returned)
          else
            (case stream_loop J gone_at (Suc k) encodedProjectName rid rest w' of
               (ys, w'', out) \<Rightarrow> ((Claude_json sdkMessage, w') # ys, w'', out)))"

definition try_block ::
  "'d JSON \<Rightarrow> nat option \<Rightarrow> int \<Rightarrow> string option \<Rightarrow> string \<Rightarrow> string option \<Rightarrow> 'd engine
     \<Rightarrow> world \<Rightarrow> 'd progress" where
  "try_block J gone_at started encodedProjectName rid authMode eng w =
     (let w1 = w\<lparr>requestAbortControllers := insert rid (requestAbortControllers w)\<rparr>
      in case (case encodedProjectName of
                 None \<Rightarrow> Inr w1
               | Some p \<Rightarrow> if p = [] then Inr w1 else initializeStreaming started p rid w1) of
           Inl e \<Rightarrow> ([], w1, Raised e)
         | Inr w2 \<Rightarrow>
             if authMode = Some ''api_key''
                \<and> (getEnv w2 ''ANTHROPIC_API_KEY'' = None \<or> getEnv w2 ''ANTHROPIC_API_KEY'' = Some [])
             then ([], w2, Raised (Error ''API Key mode requested but ANTHROPIC_API_KEY not found''))
             else
               (case stream_loop J gone_at 0 encodedProjectName rid (sdkMessages eng) w2 of
                  (ys, w3, Finished) \<Rightarrow>
                    (case ending eng of
                       Throws e \<Rightarrow> (ys, w3, Raised e)
                     | Completes \<Rightarrow>
                         (case write_if_project J (ended_at eng) encodedProjectName rid Done w3 of
                            Inl e \<Rightarrow> (ys, w3, Raised e)
                          | Inr w4 \<Rightarrow>
                              (ys @ [(Done, w4)], w4,
                               if gone_at = Some (length ys) then Returned else Finished)))
                | (ys, w3, out) \<Rightarrow> (ys, w3, out)))"

fun error_response :: "js_error \<Rightarrow> 'd StreamResponse" where
  "error_response (AbortError m) = Aborted"
| "error_response e = Error_msg (error_message e)"

text \<open>The \<open>catch\<close> block; \<open>k\<close> numbers its yield.\<close>

definition catch_block ::
  "'d JSON \<Rightarrow> nat option \<Rightarrow> nat \<Rightarrow> int \<Rightarrow> string option \<Rightarrow> string \<Rightarrow> js_error \<Rightarrow> world
     \<Rightarrow> 'd progress" where
  "catch_block J gone_at k now encodedProjectName rid e w =
     (case write_if_project J now encodedProjectName rid (error_response e) w of
        Inl e' \<Rightarrow> ([], w, Raised e')
      | Inr w' \<Rightarrow>
          ([(error_response e, w')], w', if gone_at = Some k then Returned else Finished))"

text \<open>
  The generator's run: every response it yields, with the world at that yield; the world
  after its \<open>finally\<close> block; the exception that leaves it, if any.
\<close>

record 'd run =
  yielded :: "('d StreamResponse \<times> world) list"
  final :: world
  thrown :: "js_error option"

definition executeClaudeCommand ::
  "'d JSON \<Rightarrow> nat option \<Rightarrow> int \<Rightarrow> string \<Rightarrow> string option \<Rightarrow> string option \<Rightarrow> 'd engine
     \<Rightarrow> world \<Rightarrow> 'd run" where
  "executeClaudeCommand J gone_at started rid workingDirectory authMode eng w =
     (let encodedProjectName = getEncodedProjectName workingDirectory
      in case try_block J gone_at started encodedProjectName rid authMode eng w of
           (ys, w1, out) \<Rightarrow>
             (case (case out of
                      Raised e \<Rightarrow>
                        catch_block J gone_at (length ys) (ended_at eng) encodedProjectName rid e w1
                    | Finished \<Rightarrow> ([], w1, Finished)
                    | Returned \<Rightarrow> ([], w1, Returned)) of
                (ys', w2, out') \<Rightarrow>
                  \<lparr>yielded = ys @ ys',
                   final = w2\<lparr>requestAbortControllers := requestAbortControllers w2 - {rid}\<rparr>,
                   thrown = (case out' of Raised e' \<Rightarrow> Some e' | Finished \<Rightarrow> None
                             | Returned \<Rightarrow> None)\<rparr>))"

text \<open>
  What \<open>handleChatRequest\<close> gets onto the response stream: the responses the generator
  yields and, when the generator throws, an error response; of these, the ones enqueued
  before the client is gone.
\<close>

definition handleChatRequest :: "nat option \<Rightarrow> 'd run \<Rightarrow> 'd StreamResponse list" where
  "handleChatRequest gone_at r =
     (let chunks = map fst (yielded r) @ (case thrown r of
                                            None \<Rightarrow> []
                                          | Some e \<Rightarrow> [Error_msg (error_message e)])
      in case gone_at of None \<Rightarrow> chunks | Some n \<Rightarrow> take n chunks)"

section \<open>Network recovery hook (client)\<close>

text \<open>
  The hook's state, its two refs, and what it does to its surroundings: the option
  callbacks it invokes, the fetches it issues, the retry counts it hands to
  \<open>calculateRetryDelay\<close> when it arms the timer, and the lines given to
  \<open>processStreamLine\<close>. An armed timer is taken to fire.
\<close>

datatype callback = OnNetworkError | OnRecoveryStart | OnRecoverySuccess | OnRecoveryFailed

datatype request = Get_status string | Get_resume string nat

record client =
  isRecovering :: bool
  retryCount :: nat
  lastError :: "js_error option"
  messageIndexRef :: nat
  messageHistoryRef :: "(nat \<times> string) list"
  callbacks :: "callback list"
  requests :: "request list"
  timers :: "nat list"
  processed :: "string list"

text \<open>\<open>String.prototype.includes\<close>.\<close>

fun str_includes :: "string \<Rightarrow> string \<Rightarrow> bool" where
  "str_includes [] sub = (sub = [])"
| "str_includes (c # cs) sub = (take (length sub) (c # cs) = sub \<or> str_includes cs sub)"

definition networkErrorMessages :: "string list" where
  "networkErrorMessages =
     [''Failed to fetch'', ''NetworkError'', ''Network request failed'',
      ''ERR_INTERNET_DISCONNECTED'', ''ERR_NETWORK_CHANGED'']"

fun isNetworkError :: "js_error \<Rightarrow> bool" where
  "isNetworkError (TypeError m) = list_ex (\<lambda>msg. str_includes m msg) networkErrorMessages"
| "isNetworkError e = False"

text \<open>
  \<open>calculateRetryDelay\<close> over exact numbers; \<open>rnd\<close> is the value \<open>Math.random()\<close>
  returns. The host computes it in double precision.
\<close>

definition calculateRetryDelay :: "real \<Rightarrow> real \<Rightarrow> nat \<Rightarrow> real \<Rightarrow> real" where
  "calculateRetryDelay initialRetryDelay maxRetryDelay n rnd =
     min (initialRetryDelay * 2 ^ n) maxRetryDelay + rnd * 1000"

text \<open>
  A fetch either rejects, or answers with a status outside 200..299, or answers with a
  body (\<open>response.json()\<close> rejecting counts as rejecting).
\<close>

datatype 'a reply = Rejects js_error | Not_ok nat | Ok_json 'a

fun decimal :: "nat \<Rightarrow> string" where
  "decimal n =
     (if n < 10 then [char_of (48 + n)]
      else decimal (n div 10) @ [char_of (48 + n mod 10)])"

declare decimal.simps [simp del]

definition checkRequestStatus :: "StatusResponse reply \<Rightarrow> js_error + StatusResponse" where
  "checkRequestStatus r =
     (case r of
        Rejects e \<Rightarrow> Inl e
      | Not_ok code \<Rightarrow> Inl (Error (''Status check failed: '' @ decimal code))
      | Ok_json body \<Rightarrow> Inr body)"

definition resumeStreaming :: "'d ResumeResponse reply \<Rightarrow> js_error + 'd ResumeResponse" where
  "resumeStreaming r =
     (case r of
        Rejects e \<Rightarrow> Inl e
      | Not_ok code \<Rightarrow> Inl (Error (''Resume failed: '' @ decimal code))
      | Ok_json body \<Rightarrow> Inr body)"

definition trackMessage :: "string \<Rightarrow> client \<Rightarrow> client" where
  "trackMessage message c =
     (let h = messageHistoryRef c @ [(messageIndexRef c, message)]
      in c\<lparr>messageIndexRef := messageIndexRef c + 1,
            messageHistoryRef := (if length h > 100 then tl h else h)\<rparr>)"

definition resetTracking :: "client \<Rightarrow> client" where
  "resetTracking c = c\<lparr>messageIndexRef := 0\<rparr>"

definition processStreamLine :: "string \<Rightarrow> client \<Rightarrow> client" where
  "processStreamLine line c = c\<lparr>processed := processed c @ [line]\<rparr>"

text \<open>The body of the read loop of \<open>sendMessage\<close>, for one line of the live stream.\<close>

definition receive_line :: "string \<Rightarrow> client \<Rightarrow> client" where
  "receive_line line c = processStreamLine line (trackMessage line c)"

text \<open>The callback \<open>sendMessage\<close> hands to \<open>handleNetworkError\<close>.\<close>

definition onResumeMessages :: "'d JSON \<Rightarrow> 'd StreamResponse list \<Rightarrow> client \<Rightarrow> client" where
  "onResumeMessages J resumedMessages c =
     foldl (\<lambda>c' message. processStreamLine (stringify J message) c') c resumedMessages"

definition fire :: "callback \<Rightarrow> client \<Rightarrow> client" where
  "fire cb c = c\<lparr>callbacks := callbacks c @ [cb]\<rparr>"

text \<open>
  What the network answers to one recovery attempt: the reply to the status fetch, and
  the reply to the resume fetch by the index asked for.
\<close>

type_synonym 'd answers = "StatusResponse reply \<times> (nat \<Rightarrow> 'd ResumeResponse reply)"

text \<open>The \<open>try\<close> block of \<open>attemptRecovery\<close>, up to the resumed messages being processed.\<close>

definition try_resume ::
  "'d answers \<Rightarrow> string \<Rightarrow> ('d StreamResponse list \<Rightarrow> client \<Rightarrow> client) \<Rightarrow> client
     \<Rightarrow> client \<times> (js_error + unit)" where
  "try_resume ans rid onResume c =
     (let c1 = c\<lparr>requests := requests c @ [Get_status rid]\<rparr>
      in case checkRequestStatus (fst ans) of
           Inl e \<Rightarrow> (c1, Inl e)
         | Inr st \<Rightarrow>
             if status_status st = NOT_FOUND then (c1, Inl (Error ''Request not found''))
             else
               (let c2 = c1\<lparr>requests := requests c1 @ [Get_resume rid (messageIndexRef c1)]\<rparr>
                in case resumeStreaming (snd ans (messageIndexRef c1)) of
                     Inl e \<Rightarrow> (c2, Inl e)
                   | Inr resumeResponse \<Rightarrow>
                       ((if messages resumeResponse \<noteq> []
                         then onResume (messages resumeResponse) c2 else c2),
                        Inr ())))"

text \<open>
  \<open>attemptRecovery\<close>, with the closure's \<open>retryCount\<close> as an argument. Each attempt
  that fails on the network raises it by one, so it also numbers the attempts: attempt
  \<open>n\<close> is answered by \<open>net n\<close>.
\<close>

function attemptRecovery ::
  "int \<Rightarrow> (nat \<Rightarrow> 'd answers) \<Rightarrow> string \<Rightarrow> ('d StreamResponse list \<Rightarrow> client \<Rightarrow> client)
     \<Rightarrow> nat \<Rightarrow> client \<Rightarrow> bool \<times> client" where
  "attemptRecovery maxRetries net rid onResume n c =
     (if int n \<ge> maxRetries
      then (False, fire OnRecoveryFailed (c\<lparr>isRecovering := False, retryCount := 0\<rparr>))
      else
        (let c1 = c\<lparr>isRecovering := True, retryCount := n + 1\<rparr>;
             c2 = (if n = 0 then fire OnRecoveryStart c1 else c1)
         in case try_resume (net n) rid onResume c2 of
              (c3, Inr u) \<Rightarrow>
                (True, fire OnRecoverySuccess
                         (c3\<lparr>isRecovering := False, retryCount := 0, lastError := None\<rparr>))
            | (c3, Inl recoveryError) \<Rightarrow>
                if \<not> isNetworkError recoveryError
                then (False, fire OnRecoveryFailed (c3\<lparr>isRecovering := False, retryCount := 0\<rparr>))
                else attemptRecovery maxRetries net rid onResume (n + 1)
                       (c3\<lparr>timers := timers c3 @ [n + 1]\<rparr>)))"
  by pat_completeness auto
termination
  by (relation "measure (\<lambda>(maxRetries, net, rid, onResume, n, c). nat (maxRetries - int n))") auto

declare attemptRecovery.simps [simp del]

definition handleNetworkError ::
  "int \<Rightarrow> (nat \<Rightarrow> 'd answers) \<Rightarrow> js_error \<Rightarrow> string
     \<Rightarrow> ('d StreamResponse list \<Rightarrow> client \<Rightarrow> client) \<Rightarrow> client \<Rightarrow> bool \<times> client" where
  "handleNetworkError maxRetries net error rid onResume c =
     (if \<not> isNetworkError error then (False, c)
      else attemptRecovery maxRetries net rid onResume 0
             (fire OnNetworkError (c\<lparr>lastError := Some error\<rparr>)))"

text \<open>The recovery attempts made: the status fetches issued.\<close>

definition attempts :: "client \<Rightarrow> nat" where
  "attempts c = length (filter (\<lambda>r. case r of Get_status x \<Rightarrow> True | Get_resume x i \<Rightarrow> False) (requests c))"

section \<open>Auxiliary notions for the statements\<close>

text \<open>The printable ASCII characters but the space: no white space begins or ends with one.\<close>

definition plain :: "char \<Rightarrow> bool" where
  "plain c = (32 < (of_char c :: nat) \<and> (of_char c :: nat) < 128)"

text \<open>The text of a log to which the messages \<open>ms\<close> were appended, one line each.\<close>

definition log_text :: "'d JSON \<Rightarrow> 'd StreamResponse list \<Rightarrow> string" where
  "log_text J ms = concat (map (\<lambda>m. stringify J m @ [CHR 0x0A]) ms)"

text \<open>The text of the file at a path, empty when there is none.\<close>

definition log_of :: "world \<Rightarrow> string \<Rightarrow> string" where
  "log_of w path = (case files w path of None \<Rightarrow> [] | Some content \<Rightarrow> content)"

text \<open>
  The directory and the path that \<open>getStreamingDir\<close> and \<open>getStreamingFilePath\<close> build
  under a home directory.
\<close>

definition streaming_dir :: "string \<Rightarrow> string \<Rightarrow> string" where
  "streaming_dir homeDir encodedProjectName =
     homeDir @ ''/.claude/projects/'' @ encodedProjectName @ ''/streaming''"

definition streaming_path :: "string \<Rightarrow> string \<Rightarrow> string \<Rightarrow> string" where
  "streaming_path homeDir encodedProjectName rid =
     homeDir @ ''/.claude/projects/'' @ encodedProjectName @ ''/streaming'' @ ''/'' @ rid @ ''.jsonl''"

text \<open>Appending a sequence of messages, each at its clock reading, in order.\<close>

fun append_all ::
  "'d JSON \<Rightarrow> string \<Rightarrow> string \<Rightarrow> (int \<times> 'd StreamResponse) list \<Rightarrow> world \<Rightarrow> js_error + world" where
  "append_all J encodedProjectName rid [] w = Inr w"
| "append_all J encodedProjectName rid ((now, m) # rest) w =
     (case appendMessage J now encodedProjectName rid m w of
        Inl e \<Rightarrow> Inl e
      | Inr w' \<Rightarrow> append_all J encodedProjectName rid rest w')"

text \<open>
  A small instance of the JSON parameter on which the model can be run: the tag letter
  and the payload with line feed and backslash escaped, between braces.
\<close>

fun escape :: "string \<Rightarrow> string" where
  "escape [] = []"
| "escape (c # cs) =
     (if c = CHR 0x0A then [CHR 0x5C, CHR ''n'']
      else if c = CHR 0x5C then [CHR 0x5C, CHR 0x5C]
      else [c]) @ escape cs"

fun unescape :: "string \<Rightarrow> string" where
  "unescape (a # b # cs) =
     (if a = CHR 0x5C then (if b = CHR ''n'' then CHR 0x0A else b) # unescape cs
      else a # unescape (b # cs))"
| "unescape cs = cs"

definition tagged_stringify :: "string StreamResponse \<Rightarrow> string" where
  "tagged_stringify m =
     (case m of
        Claude_json d \<Rightarrow> ''{c'' @ escape d @ ''}''
      | Error_msg e \<Rightarrow> ''{e'' @ escape e @ ''}''
      | Done \<Rightarrow> ''{d}''
      | Aborted \<Rightarrow> ''{a}'')"

definition tagged_parse :: "string \<Rightarrow> string StreamResponse option" where
  "tagged_parse s =
     (case s of
        a # t # rest \<Rightarrow>
          if a = CHR ''{'' \<and> rest \<noteq> [] \<and> last rest = CHR ''}'' then
            (let body = unescape (butlast rest)
             in if t = CHR ''c'' then Some (Claude_json body)
                else if t = CHR ''e'' then Some (Error_msg body)
                else if t = CHR ''d'' \<and> body = [] then Some Done
                else if t = CHR ''a'' \<and> body = [] then Some Aborted
                else None)
          else None
      | _ \<Rightarrow> None)"

definition tagged_json :: "string JSON" where
  "tagged_json = \<lparr>stringify = tagged_stringify, parse = tagged_parse\<rparr>"

text \<open>A world with nothing registered and no file, under a given home directory.\<close>

definition empty_world :: "string \<Rightarrow> world" where
  "empty_world homeDir =
     \<lparr>requestStatuses = [], requestAbortControllers = {},
      getEnv = (\<lambda>key. if key = ''HOME'' then Some homeDir else None),
      files = Map.empty, ensureDir_fails = {}, append_fails = {}, read_fails = {},
      remove_fails = {}\<rparr>"

definition new_client :: client where
  "new_client =
     \<lparr>isRecovering = False, retryCount = 0, lastError = None, messageIndexRef = 0,
      messageHistoryRef = [], callbacks = [], requests = [], timers = [], processed = []\<rparr>"

text \<open>
  \<open>grown J path rid ms w w'\<close>: the world \<open>w'\<close> is \<open>w\<close> after the messages \<open>ms\<close> were
  appended for request \<open>rid\<close>: its log at \<open>path\<close> is longer by their lines, its registry
  entry counts them and has the status they leave, and nothing else has changed.
\<close>

definition grown ::
  "'d JSON \<Rightarrow> string \<Rightarrow> string \<Rightarrow> 'd StreamResponse list \<Rightarrow> world \<Rightarrow> world \<Rightarrow> bool" where
  "grown J path rid ms w w' =
     (getEnv w' = getEnv w \<and> remove_fails w' = remove_fails w
      \<and> ensureDir_fails w' = ensureDir_fails w \<and> append_fails w' = append_fails w
      \<and> read_fails w' = read_fails w
      \<and> requestAbortControllers w' = requestAbortControllers w
      \<and> log_of w' path = log_of w path @ log_text J ms
      \<and> (\<forall>q. q \<noteq> path \<longrightarrow> files w' q = files w q)
      \<and> (\<forall>r. r \<noteq> rid \<longrightarrow> map_of (requestStatuses w') r = map_of (requestStatuses w) r)
      \<and> (\<exists>i i'. map_of (requestStatuses w) rid = Some i
                \<and> map_of (requestStatuses w') rid = Some i'
                \<and> requestId i' = requestId i \<and> filePath i' = filePath i
                \<and> totalMessages i' = totalMessages i + length ms
                \<and> status i' = foldl (\<lambda>s m. status_after m s) (status i) ms))"

text \<open>The terminal entries: everything but an SDK message.\<close>

fun is_terminal :: "'d StreamResponse \<Rightarrow> bool" where
  "is_terminal (Claude_json d) = False"
| "is_terminal m = True"

text \<open>
  A world in which request \<open>r1\<close> of project \<open>p\<close> was registered and then had one SDK
  message and \<open>Done\<close> appended.
\<close>

definition sample_world :: "string \<Rightarrow> world" where
  "sample_world homeDir =
     (case initializeStreaming 0 ''p'' ''r1'' (empty_world homeDir) of
        Inl e \<Rightarrow> empty_world homeDir
      | Inr w1 \<Rightarrow>
          (case append_all tagged_json ''p'' ''r1'' [(1, Claude_json ''a''), (2, Done)] w1 of
             Inl e \<Rightarrow> w1
           | Inr w2 \<Rightarrow> w2))"

text \<open>The same world when the runtime refuses to read the log of \<open>r1\<close>.\<close>

definition unreadable_world :: world where
  "unreadable_world =
     (sample_world ''/home/u'')\<lparr>read_fails := {streaming_path ''/home/u'' ''p'' ''r1''}\<rparr>"

text \<open>
  A registry for the sweeper: \<open>a\<close> in progress and old, \<open>b\<close> completed and old with a
  log the runtime refuses to remove, \<open>c\<close> failed and recent.
\<close>

definition sweep_world :: world where
  "sweep_world =
     \<lparr>requestStatuses =
        [(''a'', \<lparr>requestId = ''a'', filePath = ''/h/a.jsonl'', status = IN_PROGRESS,
                  totalMessages = 1, lastUpdated = 0\<rparr>),
         (''b'', \<lparr>requestId = ''b'', filePath = ''/h/b.jsonl'', status = COMPLETED,
                  totalMessages = 2, lastUpdated = 0\<rparr>),
         (''c'', \<lparr>requestId = ''c'', filePath = ''/h/c.jsonl'', status = FAILED,
                  totalMessages = 1, lastUpdated = 900000\<rparr>)],
      requestAbortControllers = {},
      getEnv = (\<lambda>key. None),
      files = [''/h/b.jsonl'' \<mapsto> ''x''],
      ensureDir_fails = {}, append_fails = {}, read_fails = {},
      remove_fails = {''/h/b.jsonl''}\<rparr>"

text \<open>
  The terminal entry and the registry status that the end of the engine's run calls for:
  \<open>Done\<close> and completed when its sequence ends, \<open>Aborted\<close> and aborted when it throws
  \<open>AbortError\<close>, \<open>Error\<close> with the reason and failed on any other exception.
\<close>

fun terminal_entry :: "engine_end \<Rightarrow> 'd StreamResponse" where
  "terminal_entry Completes = Done"
| "terminal_entry (Throws (AbortError m)) = Aborted"
| "terminal_entry (Throws e) = Error_msg (error_message e)"


text \<open>
  What the handler gets from the engine: in API-key mode without a key it throws before
  the engine is started; otherwise the engine's messages and its end.
\<close>

definition run_end :: "world \<Rightarrow> string option \<Rightarrow> 'd engine \<Rightarrow> (int \<times> 'd) list \<times> engine_end" where
  "run_end w authMode eng =
     (if authMode = Some ''api_key''
         \<and> (getEnv w ''ANTHROPIC_API_KEY'' = None \<or> getEnv w ''ANTHROPIC_API_KEY'' = Some [])
      then ([], Throws (Error ''API Key mode requested but ANTHROPIC_API_KEY not found''))
      else (sdkMessages eng, ending eng))"

text \<open>
  The exception in which a recovery attempt ends when the network answers \<open>ans\<close> and the
  cursor is \<open>fromIndex\<close>, if any; and whether the attempt fails with an exception that
  \<open>isNetworkError\<close> classifies as a network error.
\<close>

definition attempt_error :: "'d answers \<Rightarrow> nat \<Rightarrow> js_error option" where
  "attempt_error ans fromIndex =
     (case checkRequestStatus (fst ans) of
        Inl e \<Rightarrow> Some e
      | Inr st \<Rightarrow>
          if status_status st = NOT_FOUND then Some (Error ''Request not found'')
          else (case resumeStreaming (snd ans fromIndex) of
                  Inl e \<Rightarrow> Some e
                | Inr resumeResponse \<Rightarrow> None))"

definition network_failure :: "'d answers \<Rightarrow> nat \<Rightarrow> bool" where
  "network_failure ans fromIndex =
     (case attempt_error ans fromIndex of Some e \<Rightarrow> isNetworkError e | None \<Rightarrow> False)"

text \<open>
  The responses a consumer gets out of a generator that would yield \<open>xs\<close>: all of them,
  or those up to the yield at which it returns the generator.
\<close>

definition drawn :: "nat option \<Rightarrow> 'a list \<Rightarrow> 'a list" where
  "drawn gone_at xs = (case gone_at of None \<Rightarrow> xs | Some n \<Rightarrow> take (Suc n) xs)"

text \<open>
  The file the resume handler reads for a registered request: the one under the project
  name it takes from the stored path.
\<close>

definition resumed_path :: "string \<Rightarrow> StreamingFileInfo \<Rightarrow> string \<Rightarrow> string" where
  "resumed_path homeDir info rid =
     streaming_path homeDir
       (split_on (CHR ''/'') (filePath info)
          ! nat (indexOf (split_on (CHR ''/'') (filePath info)) ''projects'' + 1))
       rid"

text \<open>
  Concrete runs: an engine that yields one message and ends, a second one that yields
  nothing, a run of request \<open>r1\<close> on the first, and a world whose environment has no
  \<open>HOME\<close>.
\<close>

definition sample_engine :: "string engine" where
  "sample_engine = \<lparr>sdkMessages = [(1, ''a'')], ending = Completes, ended_at = 2\<rparr>"


definition sample_run :: "nat option \<Rightarrow> string option \<Rightarrow> world \<Rightarrow> string run" where
  "sample_run gone_at workingDirectory w =
     executeClaudeCommand tagged_json gone_at 0 ''r1'' workingDirectory None sample_engine w"

definition no_home :: world where
  "no_home = (empty_world [])\<lparr>getEnv := (\<lambda>key. None)\<rparr>"

text \<open>
  Worlds in which the runtime refuses to append to the log of \<open>r1\<close> in \<open>/w\<close>, and to
  create its directory.
\<close>

definition no_append :: world where
  "no_append = (empty_world ''/home/u'')\<lparr>append_fails := {streaming_path ''/home/u'' ''_w'' ''r1''}\<rparr>"

definition no_mkdir :: world where
  "no_mkdir = (empty_world ''/home/u'')\<lparr>ensureDir_fails := {streaming_dir ''/home/u'' ''_w''}\<rparr>"

text \<open>
  A network that rejects every fetch of the first \<open>N\<close> attempts with
  \<open>TypeError: Failed to fetch\<close> and from then on answers for a completed request of three
  messages; and a client that has received one line of the live stream.
\<close>

definition flaky_net :: "nat \<Rightarrow> nat \<Rightarrow> string answers" where
  "flaky_net N n =
     (if n < N
      then (Rejects (TypeError ''Failed to fetch''), \<lambda>i. Rejects (TypeError ''Failed to fetch''))
      else (Ok_json \<lparr>status_requestId = ''r1'', status_status = COMPLETED,
                     status_totalMessages = 3, status_lastUpdated = 3\<rparr>,
            \<lambda>i. Ok_json \<lparr>messages = drop i [Claude_json ''a'', Claude_json ''b'', Done],
                          resume_totalMessages = 3, isComplete = True\<rparr>))"

definition interrupted_client :: client where
  "interrupted_client = receive_line ''{ca}'' (resetTracking new_client)"

section \<open>Properties\<close>

subsection \<open>Splitting, trimming and the lines of a log\<close>

lemma split_on_nonempty: "split_on c s \<noteq> []"
  by (induction s) (auto split: list.splits)

lemma split_on_no_sep: "c \<notin> set s \<Longrightarrow> split_on c s = [s]"
  by (induction s) auto

lemma split_on_append: "split_on c (a @ c # b) = split_on c a @ split_on c b"
proof (induction a)
  case Nil
  show ?case by simp
next
  case (Cons x a)
  obtain p ps where ps: "split_on c a = p # ps"
    using split_on_nonempty [of c a] by (cases "split_on c a") auto
  show ?case using Cons ps by simp
qed

text \<open>
  Every white-space character begins, and ends, with a byte that is at most a space or
  beyond ASCII; a text that begins with another byte begins with no white space.
\<close>

lemma white_space_bytes:
  assumes "ws \<in> set white_space \<union> set (map rev white_space)"
  shows "ws \<noteq> [] \<and> ((of_char (hd ws) :: nat) \<le> 32 \<or> 128 \<le> (of_char (hd ws) :: nat))"
  using assms by (auto simp: white_space_def)

lemma ws_len_Nil: "ws_len wss [] = 0"
proof -
  have "filter (\<lambda>ws. ws \<noteq> [] \<and> take (length ws) [] = ws) wss = []"
    by (auto simp: filter_empty_conv)
  then show ?thesis by (simp add: ws_len_def)
qed

lemma ws_len_plain:
  assumes "wss = white_space \<or> wss = map rev white_space" "plain c"
  shows "ws_len wss (c # cs) = 0"
proof -
  have "\<not> (ws \<noteq> [] \<and> take (length ws) (c # cs) = ws)" if m: "ws \<in> set wss" for ws
  proof
    assume a: "ws \<noteq> [] \<and> take (length ws) (c # cs) = ws"
    then obtain x xs where ws: "ws = x # xs" by (cases ws) auto
    then have "x = c" using a by simp
    moreover have "(of_char (hd ws) :: nat) \<le> 32 \<or> 128 \<le> (of_char (hd ws) :: nat)"
      using white_space_bytes [of ws] m assms(1) by auto
    ultimately show False using assms(2) ws by (simp add: plain_def)
  qed
  then have "filter (\<lambda>ws. ws \<noteq> [] \<and> take (length ws) (c # cs) = ws) wss = []"
    by (simp add: filter_empty_conv)
  then show ?thesis by (simp add: ws_len_def)
qed

lemma strip_plain:
  assumes "wss = white_space \<or> wss = map rev white_space" "s \<noteq> []" "plain (hd s)"
  shows "strip wss s = s"
proof -
  obtain c cs where s: "s = c # cs" using assms(2) by (cases s) auto
  then have "ws_len wss s = 0" using ws_len_plain [OF assms(1), of c cs] assms(3) by simp
  then show ?thesis by (subst strip.simps) simp
qed

lemma strip_Nil: "strip wss [] = []"
  by (subst strip.simps) (simp add: ws_len_Nil)

lemma strip_line_feed:
  "strip (map rev white_space) (CHR 0x0A # s) = strip (map rev white_space) s"
proof -
  have "ws_len (map rev white_space) (CHR 0x0A # s) = 1"
    by (simp add: ws_len_def white_space_def)
  then show ?thesis by (subst strip.simps) simp
qed

lemma plain_brace: "plain (CHR ''{'')" "plain (CHR ''}'')"
  by (simp_all add: plain_def)

lemma trim_plain:
  assumes "s \<noteq> []" "plain (hd s)" "plain (last s)"
  shows "trim s = s"
proof -
  have a: "trim_start s = s"
    unfolding trim_start_def using assms by (simp add: strip_plain)
  have "rev s \<noteq> []" "plain (hd (rev s))"
    using assms by (auto simp: hd_rev)
  then have b: "strip (map rev white_space) (rev s) = rev s"
    by (simp add: strip_plain)
  show ?thesis by (simp add: trim_def a b)
qed

lemma trim_braced:
  assumes "s \<noteq> []" "hd s = CHR ''{''" "last s = CHR ''}''"
  shows "trim s = s"
  using assms by (simp add: trim_plain plain_brace)

lemma trim_inner_nl:
  assumes "s \<noteq> []" "plain (hd s)" "plain (last s)"
  shows "trim (s @ [CHR 0x0A]) = s"
proof -
  have a: "trim_start (s @ [CHR 0x0A]) = s @ [CHR 0x0A]"
    unfolding trim_start_def using assms by (simp add: strip_plain)
  have "rev s \<noteq> []" "plain (hd (rev s))"
    using assms by (auto simp: hd_rev)
  then have b: "strip (map rev white_space) (rev s) = rev s"
    by (simp add: strip_plain)
  show ?thesis by (simp add: trim_def a b strip_line_feed)
qed

lemma log_text_Cons: "log_text J (m # ms) = stringify J m @ CHR 0x0A # log_text J ms"
  by (simp add: log_text_def)

lemma log_text_snoc: "log_text J (ms @ [m]) = log_text J ms @ stringify J m @ [CHR 0x0A]"
  by (simp add: log_text_def)

lemma split_log_text:
  assumes "json_faithful J"
  shows "split_on (CHR 0x0A) (log_text J ms @ t) = map (stringify J) ms @ split_on (CHR 0x0A) t"
proof (induction ms)
  case Nil
  show ?case by (simp add: log_text_def)
next
  case (Cons m ms)
  have "CHR 0x0A \<notin> set (stringify J m)"
    using assms by (simp add: json_faithful_def)
  then have "split_on (CHR 0x0A) (stringify J m) = [stringify J m]"
    by (rule split_on_no_sep)
  then show ?case
    using Cons split_on_append [of "CHR 0x0A" "stringify J m" "log_text J ms @ t"]
    by (simp add: log_text_Cons)
qed

lemma file_lines_log_text:
  assumes J: "json_faithful J"
  shows "file_lines (log_text J ms) = map (stringify J) ms"
proof (cases ms rule: rev_cases)
  case Nil
  then show ?thesis
    by (simp add: file_lines_def log_text_def trim_def trim_start_def strip_Nil)
next
  case (snoc ms' m)
  let ?X = "log_text J ms' @ stringify J m"
  have sm: "stringify J m \<noteq> []" "hd (stringify J m) = CHR ''{''" "last (stringify J m) = CHR ''}''"
    "CHR 0x0A \<notin> set (stringify J m)"
    using J by (simp_all add: json_faithful_def)
  have hdX: "hd ?X = CHR ''{''"
  proof (cases ms')
    case Nil then show ?thesis using sm by (simp add: log_text_def)
  next
    case (Cons a as)
    have "stringify J a \<noteq> []" "hd (stringify J a) = CHR ''{''"
      using J by (simp_all add: json_faithful_def)
    then show ?thesis using Cons by (simp add: log_text_Cons)
  qed
  have "trim (?X @ [CHR 0x0A]) = ?X"
    by (rule trim_inner_nl) (use sm hdX in \<open>simp_all add: plain_brace\<close>)
  then have t: "trim (log_text J ms) = ?X"
    by (simp add: snoc log_text_snoc)
  have s: "split_on (CHR 0x0A) ?X = map (stringify J) ms"
    using split_log_text [OF J, of ms' "stringify J m"] split_on_no_sep [OF sm(4)]
    by (simp add: snoc)
  have "\<And>l. l \<in> set (map (stringify J) ms) \<Longrightarrow> trim l \<noteq> []"
  proof -
    fix l assume "l \<in> set (map (stringify J) ms)"
    then obtain x where l: "l = stringify J x" by auto
    have "l \<noteq> []" "hd l = CHR ''{''" "last l = CHR ''}''"
      using J by (simp_all add: json_faithful_def l)
    then show "trim l \<noteq> []" by (simp add: trim_braced)
  qed
  then have "filter (\<lambda>line. trim line \<noteq> []) (map (stringify J) ms) = map (stringify J) ms"
    by (simp add: filter_id_conv)
  then show ?thesis by (simp add: file_lines_def t s)
qed

lemma read_from_map_filter:
  "read_from J lines i = List.map_filter (parse J) (drop (nat i) lines)"
proof (induction J lines i rule: read_from.induct)
  case (1 J lines i)
  show ?case
  proof (cases "i < int (length lines)")
    case False
    then show ?thesis by (subst read_from.simps) simp
  next
    case True
    show ?thesis
    proof (cases "0 \<le> i")
      case neg: False
      then have "nat (i + 1) = nat i" by simp
      then show ?thesis
        using "1.IH"(1) True neg by (subst read_from.simps) simp
    next
      case pos: True
      then have n: "nat i < length lines" using True by simp
      have d: "drop (nat i) lines = lines ! nat i # drop (nat (i + 1)) lines"
        using n pos by (simp add: Cons_nth_drop_Suc nat_add_distrib)
      show ?thesis
      proof (cases "parse J (lines ! nat i)")
        case None
        then show ?thesis
          using "1.IH"(1) True pos d by (subst read_from.simps) (simp add: map_filter_simps)
      next
        case (Some m)
        then show ?thesis
          using "1.IH"(2) True pos d by (subst read_from.simps) (simp add: map_filter_simps)
      qed
    qed
  qed
qed

lemma map_filter_parse_stringify:
  assumes "json_faithful J"
  shows "List.map_filter (parse J) (map (stringify J) ms) = ms"
  using assms by (induction ms) (simp_all add: map_filter_simps json_faithful_def)

lemma read_from_log:
  assumes "json_faithful J"
  shows "read_from J (file_lines (log_text J ms)) i = drop (nat i) ms"
  using assms
  by (simp add: read_from_map_filter file_lines_log_text drop_map
      map_filter_parse_stringify)

subsection \<open>The stored path and its components\<close>

lemma indexOf_found: "x \<in> set xs \<Longrightarrow> 0 \<le> indexOf xs x \<and> indexOf xs x < int (length xs)"
  by (induction xs) (auto simp: Let_def)

lemma indexOf_first: "x \<notin> set xs \<Longrightarrow> indexOf (xs @ x # ys) x = int (length xs)"
  by (induction xs) (auto simp: Let_def)

lemma indexOf_le: "indexOf (xs @ x # ys) x \<le> int (length xs)"
proof (induction xs)
  case Nil show ?case by simp
next
  case (Cons a xs)
  have "0 \<le> indexOf (xs @ x # ys) x" by (rule indexOf_found [THEN conjunct1]) simp
  with Cons show ?case by (auto simp: Let_def)
qed

lemma streaming_path_parts:
  "split_on (CHR ''/'') (streaming_path homeDir enc rid) =
     split_on (CHR ''/'') homeDir @ [''.claude'', ''projects''] @ split_on (CHR ''/'') enc
       @ [''streaming''] @ split_on (CHR ''/'') (rid @ ''.jsonl'')"
proof -
  let ?s = "CHR ''/''"
  have e: "streaming_path homeDir enc rid =
      homeDir @ ?s # (''.claude'' @ ?s # (''projects'' @ ?s # (enc @ ?s # (''streaming'' @ ?s # (rid @ ''.jsonl'')))))"
    by (simp add: streaming_path_def)
  have l: "split_on ?s ''.claude'' = [''.claude'']" "split_on ?s ''projects'' = [''projects'']"
    "split_on ?s ''streaming'' = [''streaming'']"
    by simp_all
  show ?thesis
    unfolding e split_on_append l by simp
qed

lemma getStreamingFilePath_home:
  "getEnv w ''HOME'' = Some homeDir \<Longrightarrow> homeDir \<noteq> [] \<Longrightarrow>
   getStreamingFilePath w enc rid = Inr (streaming_path homeDir enc rid)"
  by (simp add: getStreamingFilePath_def getStreamingDir_def streaming_path_def)

lemma projects_index_bound:
  fixes homeDir enc rid
  defines "parts \<equiv> split_on (CHR ''/'') (streaming_path homeDir enc rid)"
  shows "0 \<le> indexOf parts ''projects'' \<and> indexOf parts ''projects'' + 2 < int (length parts)"
proof -
  let ?A = "split_on (CHR ''/'') homeDir @ [''.claude'']"
  let ?B = "split_on (CHR ''/'') enc @ [''streaming''] @ split_on (CHR ''/'') (rid @ ''.jsonl'')"
  have p: "parts = ?A @ ''projects'' # ?B"
    by (simp add: parts_def streaming_path_parts)
  have "indexOf parts ''projects'' \<le> int (length ?A)"
    unfolding p by (rule indexOf_le)
  moreover have "0 \<le> indexOf parts ''projects''"
    unfolding p by (rule indexOf_found [THEN conjunct1]) simp
  moreover have "length (split_on (CHR ''/'') enc) \<ge> 1" "length (split_on (CHR ''/'') (rid @ ''.jsonl'')) \<ge> 1"
    using split_on_nonempty by (simp_all add: Suc_le_eq)
  then have "length parts \<ge> length ?A + 4"
    unfolding p by simp
  ultimately show ?thesis by linarith
qed

lemma projects_index_exact:
  fixes homeDir enc rid
  defines "parts \<equiv> split_on (CHR ''/'') (streaming_path homeDir enc rid)"
  assumes h: "''projects'' \<notin> set (split_on (CHR ''/'') homeDir)" and e: "CHR ''/'' \<notin> set enc"
  shows "parts ! nat (indexOf parts ''projects'' + 1) = enc"
proof -
  let ?A = "split_on (CHR ''/'') homeDir @ [''.claude'']"
  let ?B = "[''streaming''] @ split_on (CHR ''/'') (rid @ ''.jsonl'')"
  have p: "parts = ?A @ ''projects'' # enc # ?B"
    using e by (simp add: parts_def streaming_path_parts split_on_no_sep)
  have "''projects'' \<notin> set ?A" using h by simp
  then have i: "indexOf parts ''projects'' = int (length ?A)"
    unfolding p by (rule indexOf_first)
  have "nat (int (length ?A) + 1) = length ?A + 1" by simp
  then show ?thesis
    unfolding i unfolding p by (simp add: nth_append)
qed

subsection \<open>The sample JSON instance\<close>




subsection \<open>Indices in the query string\<close>

lemma is_digit_char_of: "(k::nat) < 10 \<Longrightarrow> is_digit (char_of (48 + k))"
  by (simp add: is_digit_def)

lemma digit_val_char_of: "(k::nat) < 10 \<Longrightarrow> digit_val (char_of (48 + k)) = int k"
  by (simp add: digit_val_def)

lemma decimal_digits: "c \<in> set (decimal n) \<Longrightarrow> is_digit c"
proof (induction n rule: decimal.induct)
  case (1 n)
  show ?case
  proof (cases "n < 10")
    case True
    then show ?thesis using "1.prems" by (subst (asm) decimal.simps) (simp add: is_digit_char_of)
  next
    case False
    have "is_digit (char_of (48 + n mod 10))" by (rule is_digit_char_of) simp
    then show ?thesis
      using "1.prems" "1.IH" False by (subst (asm) decimal.simps) auto
  qed
qed

lemma decimal_nonempty: "decimal n \<noteq> []"
  by (subst decimal.simps) simp

lemma decimal_value: "foldl (\<lambda>a c. 10 * a + digit_val c) 0 (decimal n) = int n"
proof (induction n rule: decimal.induct)
  case (1 n)
  show ?case
  proof (cases "n < 10")
    case True
    then show ?thesis by (subst decimal.simps) (simp add: digit_val_char_of)
  next
    case False
    have "digit_val (char_of (48 + n mod 10)) = int (n mod 10)"
      by (rule digit_val_char_of) simp
    then show ?thesis
      using "1.IH" False by (subst decimal.simps) (simp add: zmod_int zdiv_int)
  qed
qed

lemma is_digit_plain: "is_digit c \<Longrightarrow> plain c \<and> c \<noteq> CHR ''-'' \<and> c \<noteq> CHR ''+''"
  by (auto simp: is_digit_def plain_def)

lemma parseInt10_decimal: "parseInt10 (decimal n) = Num (int n)"
proof -
  obtain c cs where d: "decimal n = c # cs"
    using decimal_nonempty [of n] by (cases "decimal n") auto
  have c: "is_digit c" using decimal_digits [of c n] d by simp
  have all: "takeWhile is_digit (decimal n) = decimal n"
    using decimal_digits by (simp add: takeWhile_eq_all_conv)
  have t: "trim_start (decimal n) = decimal n"
    unfolding trim_start_def using is_digit_plain [OF c] d by (simp add: strip_plain)
  have h: "hd (decimal n) \<noteq> CHR ''-''" "hd (decimal n) \<noteq> CHR ''+''"
    using is_digit_plain [OF c] d by simp_all
  show ?thesis
    using decimal_nonempty [of n]
    by (simp add: parseInt10_def t h all decimal_value)
qed

text \<open>
  \<open>parseInt\<close> gives NaN exactly when, after leading white space and one optional sign,
  the text does not go on with a digit. White space before a digit does not make it NaN:
  a no-break space and \<open>1\<close> parse to 1.
\<close>

lemma parseInt10_NaN_iff:
  "(parseInt10 s = NaN) =
     (let t = trim_start s;
          u = (if t \<noteq> [] \<and> (hd t = CHR ''-'' \<or> hd t = CHR ''+'') then tl t else t)
      in u = [] \<or> \<not> is_digit (hd u))"
  by (simp add: parseInt10_def Let_def takeWhile_eq_Nil_iff)

lemma parseInt10_no_break_space: "parseInt10 [CHR 0xC2, CHR 0xA0, CHR ''1''] = Num 1"
  by code_simp

subsection \<open>Registering and appending\<close>

lemma map_of_map_set: "map_of (map_set k v kvs) = (map_of kvs)(k \<mapsto> v)"
  by (induction kvs) (auto simp: fun_eq_iff)

lemma map_fst_map_set:
  "map fst (map_set k v kvs) = (if k \<in> fst ` set kvs then map fst kvs else map fst kvs @ [k])"
  by (induction kvs) force+

lemma distinct_map_set: "distinct (map fst kvs) \<Longrightarrow> distinct (map fst (map_set k v kvs))"
  by (simp add: map_fst_map_set)

text \<open>
  The registry is a map: registering and appending keep its keys distinct. (So does the
  sweep, shown with it below.)
\<close>

lemma registry_keys_distinct:
  assumes "distinct (map fst (requestStatuses w))"
  shows "initializeStreaming now p rid w = Inr w' \<Longrightarrow> distinct (map fst (requestStatuses w'))"
    and "appendMessage J now p rid m w = Inr w' \<Longrightarrow> distinct (map fst (requestStatuses w'))"
  using assms
  by (auto simp: initializeStreaming_def appendMessage_def ensureDir_def appendTextFile_def
      distinct_map_set split: sum.splits option.splits if_splits)

lemma grown_refl: "map_of (requestStatuses w) rid = Some i \<Longrightarrow> grown J path rid [] w w"
  by (simp add: grown_def log_text_def)

lemma log_text_append: "log_text J (ms @ ms') = log_text J ms @ log_text J ms'"
  by (simp add: log_text_def)

lemma grown_trans:
  assumes "grown J path rid ms w w1" "grown J path rid ms' w1 w2"
  shows "grown J path rid (ms @ ms') w w2"
proof -
  from assms(1) obtain i i1 where
    a: "map_of (requestStatuses w) rid = Some i" "map_of (requestStatuses w1) rid = Some i1"
       "requestId i1 = requestId i" "filePath i1 = filePath i"
       "totalMessages i1 = totalMessages i + length ms"
       "status i1 = foldl (\<lambda>s m. status_after m s) (status i) ms"
    unfolding grown_def by blast
  from assms(2) obtain j i2 where
    b: "map_of (requestStatuses w1) rid = Some j" "map_of (requestStatuses w2) rid = Some i2"
       "requestId i2 = requestId j" "filePath i2 = filePath j"
       "totalMessages i2 = totalMessages j + length ms'"
       "status i2 = foldl (\<lambda>s m. status_after m s) (status j) ms'"
    unfolding grown_def by blast
  have j: "j = i1" using a(2) b(1) by simp
  have e: "\<exists>i i'. map_of (requestStatuses w) rid = Some i
                \<and> map_of (requestStatuses w2) rid = Some i'
                \<and> requestId i' = requestId i \<and> filePath i' = filePath i
                \<and> totalMessages i' = totalMessages i + length (ms @ ms')
                \<and> status i' = foldl (\<lambda>s m. status_after m s) (status i) (ms @ ms')"
    using a b j by simp
  have r: "getEnv w2 = getEnv w" "remove_fails w2 = remove_fails w"
    "ensureDir_fails w2 = ensureDir_fails w" "append_fails w2 = append_fails w"
    "read_fails w2 = read_fails w"
    "requestAbortControllers w2 = requestAbortControllers w"
    "log_of w2 path = log_of w path @ log_text J (ms @ ms')"
    "\<forall>q. q \<noteq> path \<longrightarrow> files w2 q = files w q"
    "\<forall>r. r \<noteq> rid \<longrightarrow> map_of (requestStatuses w2) r = map_of (requestStatuses w) r"
    using assms unfolding grown_def by (simp_all add: log_text_append)
  show ?thesis
    unfolding grown_def using r e by blast
qed

lemma getStreamingDir_home:
  "getEnv w ''HOME'' = Some homeDir \<Longrightarrow> homeDir \<noteq> [] \<Longrightarrow>
   getStreamingDir w p = Inr (streaming_dir homeDir p)"
  by (simp add: getStreamingDir_def streaming_dir_def)

text \<open>
  An append that the runtime accepts lengthens the log by one line and counts it; one
  that the runtime refuses throws and changes nothing.
\<close>

lemma appendMessage_grown:
  assumes h: "getEnv w ''HOME'' = Some homeDir" "homeDir \<noteq> []"
    and i: "map_of (requestStatuses w) rid = Some info"
    and a: "streaming_path homeDir p rid \<notin> append_fails w"
  shows "\<exists>w'. appendMessage J now p rid m w = Inr w'
              \<and> grown J (streaming_path homeDir p rid) rid [m] w w'
              \<and> map_option lastUpdated (map_of (requestStatuses w') rid) = Some now"
proof -
  let ?path = "streaming_path homeDir p rid"
  let ?w' = "w\<lparr>files := (files w)(?path \<mapsto> (case files w ?path of
                                               None \<Rightarrow> stringify J m @ [CHR 0x0A]
                                             | Some old \<Rightarrow> old @ stringify J m @ [CHR 0x0A])),
               requestStatuses :=
                 map_set rid
                   (info\<lparr>totalMessages := totalMessages info + 1,
                         lastUpdated := now,
                         status := status_after m (status info)\<rparr>)
                   (requestStatuses w)\<rparr>"
  have e: "appendMessage J now p rid m w = Inr ?w'"
    using a by (simp add: appendMessage_def appendTextFile_def getStreamingFilePath_home [OF h] i)
  have g: "grown J ?path rid [m] w ?w'"
    unfolding grown_def
    by (simp add: i map_of_map_set log_of_def log_text_def split: option.splits)
  have l: "map_option lastUpdated (map_of (requestStatuses ?w') rid) = Some now"
    by (simp add: map_of_map_set)
  show ?thesis using e g l by blast
qed

lemma appendMessage_refused:
  assumes h: "getEnv w ''HOME'' = Some homeDir" "homeDir \<noteq> []"
    and a: "streaming_path homeDir p rid \<in> append_fails w"
  shows "\<exists>e. appendMessage J now p rid m w = Inl e"
  using a
  by (simp add: appendMessage_def appendTextFile_def getStreamingFilePath_home [OF h]
      split: option.splits)

lemma appendMessage_Inr_grown:
  assumes h: "getEnv w ''HOME'' = Some homeDir" "homeDir \<noteq> []"
    and r: "appendMessage J now p rid m w = Inr w'"
  shows "grown J (streaming_path homeDir p rid) rid [m] w w'"
proof -
  obtain info where i: "map_of (requestStatuses w) rid = Some info"
    using r by (auto simp: appendMessage_def getStreamingFilePath_home [OF h]
        split: option.splits)
  have a: "streaming_path homeDir p rid \<notin> append_fails w"
    using appendMessage_refused [OF h, of p rid J now m] r by auto
  show ?thesis
    using appendMessage_grown [OF h i a, of J now m] r by auto
qed

lemma grown_env:
  "grown J path rid ms w w' \<Longrightarrow> getEnv w' = getEnv w"
  by (simp add: grown_def)

lemma grown_entry:
  "grown J path rid ms w w' \<Longrightarrow> \<exists>i'. map_of (requestStatuses w') rid = Some i'"
  unfolding grown_def by blast

lemma append_all_Inr_grown:
  assumes h: "getEnv w ''HOME'' = Some homeDir" "homeDir \<noteq> []"
    and i: "map_of (requestStatuses w) rid = Some info"
    and r: "append_all J p rid tms w = Inr w'"
  shows "grown J (streaming_path homeDir p rid) rid (map snd tms) w w'"
  using h(1) i r
proof (induction tms arbitrary: w info)
  case Nil
  then show ?case using grown_refl by simp
next
  case (Cons tm tms)
  obtain t m where tm: "tm = (t, m)" by (cases tm)
  obtain w1 where w1: "appendMessage J t p rid m w = Inr w1" "append_all J p rid tms w1 = Inr w'"
    using Cons.prems(3) by (auto simp: tm split: sum.splits)
  have g1: "grown J (streaming_path homeDir p rid) rid [m] w w1"
    by (rule appendMessage_Inr_grown [OF Cons.prems(1) h(2) w1(1)])
  have e1: "getEnv w1 ''HOME'' = Some homeDir"
    using grown_env [OF g1] Cons.prems(1) by simp
  obtain i1 where i1: "map_of (requestStatuses w1) rid = Some i1"
    using grown_entry [OF g1] by blast
  have "grown J (streaming_path homeDir p rid) rid (map snd tms) w1 w'"
    by (rule Cons.IH [OF e1 i1 w1(2)])
  from grown_trans [OF g1 this] show ?case by (simp add: tm)
qed

subsection \<open>Reading the log and resuming\<close>

lemma log_text_empty: "json_faithful J \<Longrightarrow> (log_text J ms = []) = (ms = [])"
  by (cases ms) (auto simp: log_text_def json_faithful_def)

lemma readStreamingFile_log:
  assumes J: "json_faithful J"
    and h: "getEnv w ''HOME'' = Some homeDir" "homeDir \<noteq> []"
    and l: "log_of w (streaming_path homeDir p rid) = log_text J ms"
    and rd: "streaming_path homeDir p rid \<notin> read_fails w"
  shows "readStreamingFile J w p rid (Num k) = Inr (drop (nat k) ms)"
proof (cases "files w (streaming_path homeDir p rid)")
  case None
  then have "ms = []" using l log_text_empty [OF J, of ms] by (simp add: log_of_def)
  then show ?thesis
    by (simp add: readStreamingFile_def getStreamingFilePath_home [OF h] None)
next
  case (Some content)
  then have "content = log_text J ms" using l by (simp add: log_of_def)
  then show ?thesis
    using rd
    by (simp add: readStreamingFile_def readTextFile_def getStreamingFilePath_home [OF h] Some
        read_from_log [OF J])
qed

lemma readStreamingFile_NaN:
  assumes h: "getEnv w ''HOME'' = Some homeDir" "homeDir \<noteq> []"
    and rd: "streaming_path homeDir p rid \<notin> read_fails w"
  shows "readStreamingFile J w p rid NaN = Inr []"
  using rd
  by (simp add: readStreamingFile_def readTextFile_def getStreamingFilePath_home [OF h]
      split: option.splits)

lemma initializeStreaming_home:
  assumes h: "getEnv w ''HOME'' = Some homeDir" "homeDir \<noteq> []"
    and d: "streaming_dir homeDir p \<notin> ensureDir_fails w"
  shows "initializeStreaming now p rid w =
     Inr (w\<lparr>requestStatuses :=
              map_set rid
                \<lparr>requestId = rid, filePath = streaming_path homeDir p rid, status = IN_PROGRESS,
                 totalMessages = 0, lastUpdated = now\<rparr>
                (requestStatuses w)\<rparr>)"
  using d
  by (simp add: initializeStreaming_def ensureDir_def getStreamingDir_home [OF h]
      getStreamingFilePath_home [OF h])

lemma initializeStreaming_refused:
  assumes h: "getEnv w ''HOME'' = Some homeDir" "homeDir \<noteq> []"
    and d: "streaming_dir homeDir p \<in> ensureDir_fails w"
  shows "initializeStreaming now p rid w = Inl (Error ''ensureDir failed'')"
  using d by (simp add: initializeStreaming_def ensureDir_def getStreamingDir_home [OF h])

lemma handleResumeRequest_registered:
  assumes r: "rid \<noteq> []"
    and i: "getRequestStatus w rid = Some info"
    and f: "filePath info = streaming_path homeDir p rid"
  shows "handleResumeRequest J w rid query =
     (case readStreamingFile J w
             (split_on (CHR ''/'') (filePath info)
                ! nat (indexOf (split_on (CHR ''/'') (filePath info)) ''projects'' + 1))
             rid
             (parseInt10 (case query of None \<Rightarrow> ''0'' | Some q \<Rightarrow> if q = [] then ''0'' else q)) of
        Inl e \<Rightarrow> Json_error ''Failed to read streaming data'' 500
      | Inr msgs \<Rightarrow>
          Json_resume \<lparr>messages = msgs, resume_totalMessages = totalMessages info,
                       isComplete = (status info \<noteq> IN_PROGRESS)\<rparr>)"
proof -
  have b: "0 \<le> indexOf (split_on (CHR ''/'') (filePath info)) ''projects''"
     "indexOf (split_on (CHR ''/'') (filePath info)) ''projects'' + 2
        < int (length (split_on (CHR ''/'') (filePath info)))"
    using projects_index_bound [of homeDir p rid] by (simp_all add: f)
  then have "indexOf (split_on (CHR ''/'') (filePath info)) ''projects'' \<noteq> - 1"
    "\<not> int (length (split_on (CHR ''/'') (filePath info)))
        \<le> indexOf (split_on (CHR ''/'') (filePath info)) ''projects'' + 2"
    by linarith+
  then show ?thesis
    using r i by (simp add: handleResumeRequest_def Let_def)
qed

lemma status_fold_terminal:
  "(foldl (\<lambda>s m. status_after m s) s ms \<noteq> IN_PROGRESS)
     = (s \<noteq> IN_PROGRESS \<or> list_ex is_terminal ms)"
proof (induction ms arbitrary: s)
  case Nil show ?case by simp
next
  case (Cons m ms)
  show ?case by (cases m) (simp_all add: Cons.IH)
qed

text \<open>
  Where the home directory has no component \<open>projects\<close>, the resume handler does return
  the suffix: after a request is registered on a log that does not exist yet and the
  messages \<open>tms\<close> are appended in order, resuming from index \<open>k\<close> (sent in decimal) on a
  log that the runtime can read answers with the messages from \<open>k\<close> on, empty when \<open>k\<close> is not below their number, with
  their count and with the completion flag set once a terminal message was appended.
\<close>

lemma resume_after_appends:
  assumes J: "json_faithful J"
    and h: "getEnv w ''HOME'' = Some homeDir" "homeDir \<noteq> []"
    and hp: "''projects'' \<notin> set (split_on (CHR ''/'') homeDir)"
    and p: "CHR ''/'' \<notin> set p"
    and r: "rid \<noteq> []"
    and fresh: "files w (streaming_path homeDir p rid) = None"
    and rd: "streaming_path homeDir p rid \<notin> read_fails w"
    and init: "initializeStreaming started p rid w = Inr w1"
    and app: "append_all J p rid tms w1 = Inr w2"
  shows "handleResumeRequest J w2 rid (Some (decimal k)) =
     Json_resume \<lparr>messages = drop k (map snd tms),
                  resume_totalMessages = length tms,
                  isComplete = list_ex is_terminal (map snd tms)\<rparr>"
proof -
  let ?path = "streaming_path homeDir p rid"
  let ?i0 = "\<lparr>requestId = rid, filePath = ?path, status = IN_PROGRESS,
              totalMessages = 0, lastUpdated = started\<rparr>"
  have d: "streaming_dir homeDir p \<notin> ensureDir_fails w"
    using init initializeStreaming_refused [OF h, of p started rid] by auto
  have w1: "w1 = w\<lparr>requestStatuses := map_set rid ?i0 (requestStatuses w)\<rparr>"
    using init initializeStreaming_home [OF h d, of started rid] by simp
  have h1: "getEnv w1 ''HOME'' = Some homeDir" using h w1 by simp
  have i1: "map_of (requestStatuses w1) rid = Some ?i0" by (simp add: w1 map_of_map_set)
  have l1: "log_of w1 ?path = []" using fresh by (simp add: w1 log_of_def)
  have g: "grown J ?path rid (map snd tms) w1 w2"
    by (rule append_all_Inr_grown [OF h1 h(2) i1 app])
  obtain i2 where i2: "map_of (requestStatuses w2) rid = Some i2" "filePath i2 = ?path"
      "totalMessages i2 = length tms"
      "status i2 = foldl (\<lambda>s m. status_after m s) IN_PROGRESS (map snd tms)"
    using g i1 unfolding grown_def by auto
  have h2: "getEnv w2 ''HOME'' = Some homeDir" using grown_env [OF g] h1 by simp
  have l2: "log_of w2 ?path = log_text J (map snd tms)"
    using g l1 unfolding grown_def by simp
  have enc: "split_on (CHR ''/'') ?path ! nat (indexOf (split_on (CHR ''/'') ?path) ''projects'' + 1) = p"
    by (rule projects_index_exact [OF hp p])
  have r2: "?path \<notin> read_fails w2" using g rd w1 unfolding grown_def by simp
  have rd: "readStreamingFile J w2 p rid (Num (int k)) = Inr (drop k (map snd tms))"
    using readStreamingFile_log [OF J h2 h(2) l2 r2, of "int k"] by simp
  have q: "(case Some (decimal k) of None \<Rightarrow> ''0'' | Some q \<Rightarrow> if q = [] then ''0'' else q) = decimal k"
    using decimal_nonempty [of k] by simp
  have c: "(status i2 \<noteq> IN_PROGRESS) = list_ex is_terminal (map snd tms)"
    unfolding i2(4) by (simp add: status_fold_terminal)
  have "getRequestStatus w2 rid = Some i2" using i2(1) by (simp add: getRequestStatus_def)
  from handleResumeRequest_registered [OF r this i2(2), of J "Some (decimal k)"]
  show ?thesis
    unfolding q parseInt10_decimal i2(2) enc rd using i2(3) c by simp
qed

subsection \<open>The sweep\<close>

lemma map_delete_absent: "map_of kvs k = None \<Longrightarrow> map_delete k kvs = kvs"
  by (induction kvs) (auto simp: map_delete_def split: if_splits)

lemma evict_registry: "requestStatuses (evict rid w) = map_delete rid (requestStatuses w)"
  by (auto simp: evict_def runtime_remove_def map_delete_absent Let_def split: option.splits)

lemma evict_all_registry:
  "requestStatuses (foldl (\<lambda>w' rid. evict rid w') w rids)
     = filter (\<lambda>kv. fst kv \<notin> set rids) (requestStatuses w)"
proof (induction rids arbitrary: w)
  case Nil show ?case by simp
next
  case (Cons r rids)
  show ?case
    by (simp add: Cons.IH evict_registry map_delete_def conj_commute)
qed

lemma cleanup_registry_keys:
  "requestStatuses (cleanupExpiredFiles now w)
     = filter (\<lambda>kv. fst kv \<notin> fst ` set (filter
           (\<lambda>(rid, info). now - lastUpdated info > CLEANUP_INTERVAL_MS \<and> status info \<noteq> IN_PROGRESS)
           (requestStatuses w)))
         (requestStatuses w)"
  by (simp add: cleanupExpiredFiles_def evict_all_registry Let_def)

lemma distinct_same_key:
  assumes "distinct (map fst kvs)" "kv \<in> set kvs" "kv' \<in> set kvs" "fst kv' = fst kv"
  shows "kv' = kv"
  using assms by (metis eq_key_imp_eq_value prod.collapse)

lemma cleanup_registry:
  assumes d: "distinct (map fst (requestStatuses w))"
  shows "requestStatuses (cleanupExpiredFiles now w)
     = filter (\<lambda>(rid, info). \<not> (now - lastUpdated info > CLEANUP_INTERVAL_MS \<and> status info \<noteq> IN_PROGRESS))
         (requestStatuses w)"
proof -
  define P :: "string \<times> StreamingFileInfo \<Rightarrow> bool"
    where "P = (\<lambda>(rid, info). now - lastUpdated info > CLEANUP_INTERVAL_MS \<and> status info \<noteq> IN_PROGRESS)"
  have k: "(fst kv \<notin> fst ` set (filter P (requestStatuses w))) = (\<not> P kv)"
    if m: "kv \<in> set (requestStatuses w)" for kv
  proof
    assume "fst kv \<notin> fst ` set (filter P (requestStatuses w))"
    then show "\<not> P kv" using m by force
  next
    assume n: "\<not> P kv"
    show "fst kv \<notin> fst ` set (filter P (requestStatuses w))"
    proof
      assume "fst kv \<in> fst ` set (filter P (requestStatuses w))"
      then obtain kv' where kv': "kv' \<in> set (requestStatuses w)" "P kv'" "fst kv' = fst kv"
        by auto
      then have "kv' = kv" using distinct_same_key [OF d m] by blast
      then show False using kv'(2) n by simp
    qed
  qed
  have "requestStatuses (cleanupExpiredFiles now w)
      = filter (\<lambda>kv. fst kv \<notin> fst ` set (filter P (requestStatuses w))) (requestStatuses w)"
    unfolding P_def by (rule cleanup_registry_keys)
  also have "\<dots> = filter (\<lambda>kv. \<not> P kv) (requestStatuses w)"
    using k by (intro filter_cong) auto
  also have "(\<lambda>kv. \<not> P kv) = (\<lambda>(rid, info). \<not> (now - lastUpdated info > CLEANUP_INTERVAL_MS \<and> status info \<noteq> IN_PROGRESS))"
    by (auto simp: P_def fun_eq_iff)
  finally show ?thesis .
qed

lemma cleanup_evicts:
  assumes i: "map_of (requestStatuses w) rid = Some info"
    and e: "now - lastUpdated info > CLEANUP_INTERVAL_MS" "status info \<noteq> IN_PROGRESS"
  shows "map_of (requestStatuses (cleanupExpiredFiles now w)) rid = None"
proof -
  define P :: "string \<times> StreamingFileInfo \<Rightarrow> bool"
    where "P = (\<lambda>(rid, info). now - lastUpdated info > CLEANUP_INTERVAL_MS \<and> status info \<noteq> IN_PROGRESS)"
  have "(rid, info) \<in> set (requestStatuses w)" using i by (rule map_of_SomeD)
  moreover have "P (rid, info)" using e by (simp add: P_def)
  ultimately have "(rid, info) \<in> set (filter P (requestStatuses w))" by simp
  then have r: "rid \<in> fst ` set (filter P (requestStatuses w))" by force
  have c: "requestStatuses (cleanupExpiredFiles now w)
      = filter (\<lambda>kv. fst kv \<notin> fst ` set (filter P (requestStatuses w))) (requestStatuses w)"
    unfolding P_def by (rule cleanup_registry_keys)
  have "rid \<notin> fst ` set (requestStatuses (cleanupExpiredFiles now w))"
  proof
    assume "rid \<in> fst ` set (requestStatuses (cleanupExpiredFiles now w))"
    then obtain kv where "kv \<in> set (requestStatuses (cleanupExpiredFiles now w))" "fst kv = rid"
      by auto
    then have "rid \<notin> fst ` set (filter P (requestStatuses w))"
      unfolding c by simp
    then show False using r by simp
  qed
  then show ?thesis by (simp add: map_of_eq_None_iff)
qed

lemma cleanup_keeps_distinct:
  "distinct (map fst (requestStatuses w)) \<Longrightarrow> distinct (map fst (requestStatuses (cleanupExpiredFiles now w)))"
  unfolding cleanup_registry_keys by (rule distinct_map_filter)

lemma evict_remove_fails: "remove_fails (evict rid w) = remove_fails w"
  by (auto simp: evict_def runtime_remove_def Let_def split: option.splits)

lemma evict_keeps_unremovable: "path \<in> remove_fails w \<Longrightarrow> files (evict rid w) path = files w path"
  by (auto simp: evict_def runtime_remove_def Let_def split: option.splits)

lemma evict_all_keeps_unremovable:
  "path \<in> remove_fails w \<Longrightarrow> files (foldl (\<lambda>w' rid. evict rid w') w rids) path = files w path"
  by (induction rids arbitrary: w) (simp_all add: evict_remove_fails evict_keeps_unremovable)

lemma cleanup_keeps_unremovable:
  "path \<in> remove_fails w \<Longrightarrow> files (cleanupExpiredFiles now w) path = files w path"
  by (simp add: cleanupExpiredFiles_def Let_def evict_all_keeps_unremovable)

text \<open>
  C9. One sweep leaves in the registry exactly the entries that are in progress or whose
  age does not exceed the retention window, in their order; it evicts exactly the
  entries that are terminal and older than the window. An entry in progress keeps its
  place whatever its age. An entry due for eviction whose log the runtime refuses to
  remove is evicted all the same, and its log stays where it is. (The registry is a
  map: no key occurs twice.)
\<close>

theorem sweep_evicts_terminal_expired:
  assumes d: "distinct (map fst (requestStatuses w))"
  shows "requestStatuses (cleanupExpiredFiles now w)
           = filter (\<lambda>(rid, info). \<not> (now - lastUpdated info > CLEANUP_INTERVAL_MS
                                        \<and> status info \<noteq> IN_PROGRESS))
               (requestStatuses w)
         \<and> (\<forall>(rid, info) \<in> set (requestStatuses w).
              status info = IN_PROGRESS
                \<longrightarrow> getRequestStatus (cleanupExpiredFiles now w) rid = Some info)
         \<and> (\<forall>(rid, info) \<in> set (requestStatuses w).
              now - lastUpdated info > CLEANUP_INTERVAL_MS \<and> status info \<noteq> IN_PROGRESS
              \<and> filePath info \<in> remove_fails w
                \<longrightarrow> getRequestStatus (cleanupExpiredFiles now w) rid = None
                    \<and> files (cleanupExpiredFiles now w) (filePath info) = files w (filePath info))"
proof (intro conjI)
  show r: "requestStatuses (cleanupExpiredFiles now w)
           = filter (\<lambda>(rid, info). \<not> (now - lastUpdated info > CLEANUP_INTERVAL_MS
                                        \<and> status info \<noteq> IN_PROGRESS))
               (requestStatuses w)"
    by (rule cleanup_registry [OF d])
  show "\<forall>(rid, info) \<in> set (requestStatuses w).
              status info = IN_PROGRESS
                \<longrightarrow> getRequestStatus (cleanupExpiredFiles now w) rid = Some info"
  proof (clarify)
    fix rid info
    assume m: "(rid, info) \<in> set (requestStatuses w)" and s: "status info = IN_PROGRESS"
    have "(rid, info) \<in> set (requestStatuses (cleanupExpiredFiles now w))"
      unfolding r using m s by simp
    moreover have "distinct (map fst (requestStatuses (cleanupExpiredFiles now w)))"
      by (rule cleanup_keeps_distinct [OF d])
    ultimately show "getRequestStatus (cleanupExpiredFiles now w) rid = Some info"
      by (simp add: getRequestStatus_def)
  qed
  show "\<forall>(rid, info) \<in> set (requestStatuses w).
              now - lastUpdated info > CLEANUP_INTERVAL_MS \<and> status info \<noteq> IN_PROGRESS
              \<and> filePath info \<in> remove_fails w
                \<longrightarrow> getRequestStatus (cleanupExpiredFiles now w) rid = None
                    \<and> files (cleanupExpiredFiles now w) (filePath info) = files w (filePath info)"
  proof (clarify)
    fix rid info
    assume m: "(rid, info) \<in> set (requestStatuses w)"
      and e: "now - lastUpdated info > CLEANUP_INTERVAL_MS" "status info \<noteq> IN_PROGRESS"
      and f: "filePath info \<in> remove_fails w"
    have "map_of (requestStatuses w) rid = Some info"
      using d m by simp
    then have "getRequestStatus (cleanupExpiredFiles now w) rid = None"
      using cleanup_evicts [OF _ e] by (simp add: getRequestStatus_def)
    then show "getRequestStatus (cleanupExpiredFiles now w) rid = None
        \<and> files (cleanupExpiredFiles now w) (filePath info) = files w (filePath info)"
      using cleanup_keeps_unremovable [OF f] by simp
  qed
qed

text \<open>
  The sweep of \<open>sweep_world\<close> at time 1000000: \<open>a\<close> stays, \<open>b\<close> goes though its log
  cannot be removed, \<open>c\<close> is too recent.
\<close>

theorem sweep_evicts_terminal_expired_witness:
  "distinct (map fst (requestStatuses sweep_world))
   \<and> map fst (requestStatuses (cleanupExpiredFiles 1000000 sweep_world)) = [''a'', ''c'']
   \<and> map_option status (getRequestStatus (cleanupExpiredFiles 1000000 sweep_world) ''a'') = Some IN_PROGRESS
   \<and> getRequestStatus (cleanupExpiredFiles 1000000 sweep_world) ''b'' = None
   \<and> files (cleanupExpiredFiles 1000000 sweep_world) ''/h/b.jsonl'' = Some ''x''"
  using sweep_evicts_terminal_expired [of sweep_world 1000000]
  by (simp add: sweep_world_def CLEANUP_INTERVAL_MS_def)

subsection \<open>Resuming an evicted request, and with an index that is not a number\<close>

text \<open>
  C4, as the code has it. Once a sweep has met a terminal request older than the
  retention window, a resume call for it answers with the error response
  \<open>Request not found\<close>, status 404, whatever index is asked for; the status call answers
  \<open>not_found\<close> with a count of 0.
\<close>

theorem resume_after_eviction:
  assumes "rid \<noteq> []" "getRequestStatus w rid = Some info"
    and "status info \<noteq> IN_PROGRESS" "now - lastUpdated info > CLEANUP_INTERVAL_MS"
  shows "handleResumeRequest (J :: 'd JSON) (cleanupExpiredFiles now w) rid query
           = Json_error ''Request not found'' 404
         \<and> (handleStatusRequest later (cleanupExpiredFiles now w) rid :: 'd Response)
             = Json_status \<lparr>status_requestId = rid, status_status = NOT_FOUND,
                            status_totalMessages = 0, status_lastUpdated = later\<rparr>"
proof -
  have "getRequestStatus (cleanupExpiredFiles now w) rid = None"
    using cleanup_evicts [of w rid info now] assms by (simp add: getRequestStatus_def)
  then show ?thesis
    using assms(1) by (simp add: handleResumeRequest_def handleStatusRequest_def Let_def)
qed

lemma sample_world_entry:
  "getRequestStatus (sample_world ''/home/u'') ''r1''
     = Some \<lparr>requestId = ''r1'', filePath = streaming_path ''/home/u'' ''p'' ''r1'',
             status = COMPLETED, totalMessages = 2, lastUpdated = 2\<rparr>"
  by code_simp

text \<open>
  Request \<open>r1\<close> of \<open>sample_world\<close>, completed at time 2, swept at time 300003.
\<close>

theorem resume_after_eviction_witness:
  "''r1'' \<noteq> []
   \<and> map_option status (getRequestStatus (sample_world ''/home/u'') ''r1'') = Some COMPLETED
   \<and> map_option lastUpdated (getRequestStatus (sample_world ''/home/u'') ''r1'') = Some 2
   \<and> 300003 - (2::int) > CLEANUP_INTERVAL_MS
   \<and> handleResumeRequest tagged_json (cleanupExpiredFiles 300003 (sample_world ''/home/u'')) ''r1''
        (Some ''0'') = Json_error ''Request not found'' 404"
  using resume_after_eviction [where rid = "''r1''" and w = "sample_world ''/home/u''"
      and now = 300003 and J = tagged_json and query = "Some ''0''" and later = 0,
      OF _ sample_world_entry]
  by (simp add: sample_world_entry CLEANUP_INTERVAL_MS_def)

text \<open>
  C4 as stated fails: for the evicted request \<open>r1\<close> the resume handler returns an error
  response, not an empty message list.
\<close>

theorem resume_after_eviction_is_error:
  "map_option status (getRequestStatus (sample_world ''/home/u'') ''r1'') = Some COMPLETED
   \<and> map_option lastUpdated (getRequestStatus (sample_world ''/home/u'') ''r1'') = Some 2
   \<and> handleResumeRequest tagged_json (cleanupExpiredFiles 300003 (sample_world ''/home/u'')) ''r1''
        (Some ''0'') = Json_error ''Request not found'' 404"
  by code_simp

text \<open>
  C10, as the code has it. For a registered request (its entry holding the path that
  \<open>initializeStreaming\<close> gave it), a log that the runtime can read and a query for which
  the handler's parsing of \<open>fromIndex\<close> yields NaN, the resume handler answers with an
  empty message list, the entry's count and its completion flag: no error response, and
  no line of the log is parsed. (What the handler parses is the query value, or \<open>"0"\<close>
  when the value is absent or empty; the log it reads is the one under the project name
  it takes from the stored path.)
\<close>

theorem resume_NaN_fromIndex:
  assumes "rid \<noteq> []"
    and "getEnv w ''HOME'' = Some homeDir" "homeDir \<noteq> []"
    and "getRequestStatus w rid = Some info"
    and "filePath info = streaming_path homeDir p rid"
    and "resumed_path homeDir info rid \<notin> read_fails w"
    and "parseInt10 (case query of None \<Rightarrow> ''0'' | Some q \<Rightarrow> if q = [] then ''0'' else q) = NaN"
  shows "handleResumeRequest J w rid query
           = Json_resume \<lparr>messages = [], resume_totalMessages = totalMessages info,
                          isComplete = (status info \<noteq> IN_PROGRESS)\<rparr>"
  using handleResumeRequest_registered [OF assms(1) assms(4) assms(5), of J query]
    readStreamingFile_NaN [OF assms(2) assms(3) assms(6) [unfolded resumed_path_def], of J]
    assms(7)
  by simp

lemma sample_world_home: "getEnv (sample_world ''/home/u'') ''HOME'' = Some ''/home/u''"
  by code_simp

lemma sample_world_readable: "read_fails (sample_world ''/home/u'') = {}"
  by code_simp

text \<open>
  The query value \<open>abc\<close> against the log of \<open>r1\<close>, which holds two messages.
\<close>

theorem resume_NaN_fromIndex_witness:
  "''r1'' \<noteq> [] \<and> getEnv (sample_world ''/home/u'') ''HOME'' = Some ''/home/u'' \<and> ''/home/u'' \<noteq> []
   \<and> map_option filePath (getRequestStatus (sample_world ''/home/u'') ''r1'')
       = Some (streaming_path ''/home/u'' ''p'' ''r1'')
   \<and> read_fails (sample_world ''/home/u'') = {}
   \<and> parseInt10 (case Some ''abc'' of None \<Rightarrow> ''0'' | Some q \<Rightarrow> if q = [] then ''0'' else q) = NaN
   \<and> readStreamingFile tagged_json (sample_world ''/home/u'') ''p'' ''r1'' (Num 0)
       = Inr [Claude_json ''a'', Done]
   \<and> handleResumeRequest tagged_json (sample_world ''/home/u'') ''r1'' (Some ''abc'')
       = Json_resume \<lparr>messages = [], resume_totalMessages = 2, isComplete = True\<rparr>"
proof -
  have n: "parseInt10 (case Some ''abc'' of None \<Rightarrow> ''0'' | Some q \<Rightarrow> if q = [] then ''0'' else q) = NaN"
    by code_simp
  have n': "parseInt10 ''abc'' = NaN"
    by code_simp
  have r: "readStreamingFile tagged_json (sample_world ''/home/u'') ''p'' ''r1'' (Num 0)
       = Inr [Claude_json ''a'', Done]" by code_simp
  show ?thesis
    using resume_NaN_fromIndex [where rid = "''r1''" and w = "sample_world ''/home/u''"
        and homeDir = "''/home/u''" and p = "''p''" and query = "Some ''abc''" and J = tagged_json,
        OF _ sample_world_home _ sample_world_entry _ _ n]
    by (simp add: sample_world_entry sample_world_home sample_world_readable n' r)
qed

text \<open>
  C10 as stated fails where the runtime refuses to read the log: the log of \<open>r1\<close> exists
  and holds two lines, the query value \<open>abc\<close> parses to NaN, \<open>readTextFile\<close> rejects
  before the loop is reached, and the handler answers with the error response
  \<open>Failed to read streaming data\<close>, status 500.
\<close>

theorem resume_NaN_unreadable_log:
  "getEnv unreadable_world ''HOME'' = Some ''/home/u''
   \<and> map_option filePath (getRequestStatus unreadable_world ''r1'')
       = Some (streaming_path ''/home/u'' ''p'' ''r1'')
   \<and> files unreadable_world (streaming_path ''/home/u'' ''p'' ''r1'')
       = Some (log_text tagged_json [Claude_json ''a'', Done])
   \<and> parseInt10 ''abc'' = NaN
   \<and> handleResumeRequest tagged_json unreadable_world ''r1'' (Some ''abc'')
       = Json_error ''Failed to read streaming data'' 500"
  by code_simp

text \<open>
  C1 fails on the code when the home directory has a path component \<open>projects\<close>. With
  \<open>HOME=/projects\<close> the log of \<open>r1\<close> holds the two appended messages, and reading it
  under its project name returns them; the resume handler takes the project name from
  the first \<open>projects\<close> component of the stored path, reads under the name \<open>.claude\<close>,
  finds no file, and answers with no messages at index 0.
\<close>

theorem resume_under_projects_home:
  "readStreamingFile tagged_json (sample_world ''/projects'') ''p'' ''r1'' (Num 0)
     = Inr [Claude_json ''a'', Done]
   \<and> handleResumeRequest tagged_json (sample_world ''/projects'') ''r1'' (Some ''0'')
     = Json_resume \<lparr>messages = [], resume_totalMessages = 2, isComplete = True\<rparr>"
  by code_simp

subsection \<open>A run of the chat handler\<close>

lemma encodeURIComponent_nonempty: "s \<noteq> [] \<Longrightarrow> encodeURIComponent s \<noteq> []"
  by (cases s) (auto simp: encodeURIComponent_def)

lemma getEncodedProjectName_nonempty:
  "getEncodedProjectName workingDirectory = Some p \<Longrightarrow> p \<noteq> []"
  by (auto simp: getEncodedProjectName_def encodeURIComponent_nonempty
      split: option.splits if_splits)

lemma getEncodedProjectName_None_iff:
  "(getEncodedProjectName workingDirectory = None)
     = (workingDirectory = None \<or> workingDirectory = Some [])"
  by (auto simp: getEncodedProjectName_def split: option.splits)

lemma terminal_entry_Throws: "terminal_entry (Throws e) = error_response e"
  by (cases e) simp_all



lemma grown_append_fails: "grown J path rid ms w w' \<Longrightarrow> append_fails w' = append_fails w"
  by (simp add: grown_def)

text \<open>
  The loop over the engine's messages, for a request with a project, where the runtime
  accepts the appends: it yields the messages up to the one at which the consumer returns
  the generator, each after its append.
\<close>

lemma stream_loop_grown:
  assumes h: "getEnv w ''HOME'' = Some homeDir" "homeDir \<noteq> []"
    and p: "p \<noteq> []"
    and i: "map_of (requestStatuses w) rid = Some info"
    and a: "streaming_path homeDir p rid \<notin> append_fails w"
    and n: "\<forall>n. gone_at = Some n \<longrightarrow> k \<le> n"
  shows "\<exists>ys w'. stream_loop J gone_at k (Some p) rid tds w
              = (ys, w', if \<exists>n. gone_at = Some n \<and> n < k + length tds then Returned else Finished)
            \<and> map fst ys = (case gone_at of
                               None \<Rightarrow> map (\<lambda>x. Claude_json (snd x)) tds
                             | Some n \<Rightarrow> take (Suc n - k) (map (\<lambda>x. Claude_json (snd x)) tds))
            \<and> grown J (streaming_path homeDir p rid) rid (map fst ys) w w'
            \<and> (\<forall>j<length ys. grown J (streaming_path homeDir p rid) rid
                                 (take (Suc j) (map fst ys)) w (snd (ys ! j)))"
  using h(1) i a n
proof (induction tds arbitrary: w info k)
  case Nil
  then show ?case using grown_refl by (auto split: option.splits)
next
  case (Cons td tds)
  let ?path = "streaming_path homeDir p rid"
  obtain t d where td: "td = (t, d)" by (cases td)
  obtain w1 where w1: "appendMessage J t p rid (Claude_json d) w = Inr w1"
      "grown J ?path rid [Claude_json d] w w1"
    using appendMessage_grown [OF Cons.prems(1) h(2) Cons.prems(2) Cons.prems(3)] by blast
  show ?case
  proof (cases "gone_at = Some k")
    case True
    let ?ys = "[(Claude_json d, w1)]"
    have a: "stream_loop J gone_at k (Some p) rid (td # tds) w
               = (?ys, w1, if \<exists>n. gone_at = Some n \<and> n < k + length (td # tds)
                           then Returned else Finished)"
      using w1(1) p True by (simp add: td write_if_project_def)
    have b: "map fst ?ys = (case gone_at of
                               None \<Rightarrow> map (\<lambda>x. Claude_json (snd x)) (td # tds)
                             | Some n \<Rightarrow> take (Suc n - k) (map (\<lambda>x. Claude_json (snd x)) (td # tds)))"
      using True by (simp add: td)
    have c: "grown J ?path rid (map fst ?ys) w w1" using w1(2) by simp
    have d: "\<forall>j<length ?ys. grown J ?path rid (take (Suc j) (map fst ?ys)) w (snd (?ys ! j))"
      using w1(2) by simp
    show ?thesis using a b c d by blast
  next
    case False
    have e1: "getEnv w1 ''HOME'' = Some homeDir"
      using grown_env [OF w1(2)] Cons.prems(1) by simp
    obtain i1 where i1: "map_of (requestStatuses w1) rid = Some i1"
      using grown_entry [OF w1(2)] by blast
    have a1: "?path \<notin> append_fails w1"
      using grown_append_fails [OF w1(2)] Cons.prems(3) by simp
    have n1: "\<forall>n. gone_at = Some n \<longrightarrow> Suc k \<le> n"
      using Cons.prems(4) False by (auto simp: le_less Suc_le_eq)
    obtain ys w' where r: "stream_loop J gone_at (Suc k) (Some p) rid tds w1
              = (ys, w', if \<exists>n. gone_at = Some n \<and> n < Suc k + length tds
                         then Returned else Finished)"
        "map fst ys = (case gone_at of
                         None \<Rightarrow> map (\<lambda>x. Claude_json (snd x)) tds
                       | Some n \<Rightarrow> take (Suc n - Suc k) (map (\<lambda>x. Claude_json (snd x)) tds))"
        "grown J ?path rid (map fst ys) w1 w'"
        "\<forall>j<length ys. grown J ?path rid (take (Suc j) (map fst ys)) w1 (snd (ys ! j))"
      using Cons.IH [OF e1 i1 a1 n1] by blast
    let ?ys = "(Claude_json d, w1) # ys"
    have a: "stream_loop J gone_at k (Some p) rid (td # tds) w
               = (?ys, w', if \<exists>n. gone_at = Some n \<and> n < k + length (td # tds)
                           then Returned else Finished)"
      using w1(1) r(1) p False by (simp add: td write_if_project_def)
    have b: "map fst ?ys = (case gone_at of
                               None \<Rightarrow> map (\<lambda>x. Claude_json (snd x)) (td # tds)
                             | Some n \<Rightarrow> take (Suc n - k) (map (\<lambda>x. Claude_json (snd x)) (td # tds)))"
    proof (cases gone_at)
      case None
      then show ?thesis using r(2) by (simp add: td)
    next
      case (Some m)
      then have "Suc k \<le> m" using n1 by simp
      then have "Suc m - k = Suc (Suc m - Suc k)" by simp
      then show ?thesis using r(2) Some by (simp add: td)
    qed
    have c: "grown J ?path rid (map fst ?ys) w w'"
      using grown_trans [OF w1(2) r(3)] by simp
    have d: "grown J ?path rid (take (Suc j) (map fst ?ys)) w (snd (?ys ! j))"
      if j: "j < length ?ys" for j
    proof (cases j)
      case 0
      then show ?thesis using w1(2) by simp
    next
      case (Suc j')
      then have "j' < length ys" using j by simp
      then have "grown J ?path rid (take (Suc j') (map fst ys)) w1 (snd (ys ! j'))"
        using r(4) by blast
      from grown_trans [OF w1(2) this] show ?thesis by (simp add: Suc)
    qed
    show ?thesis using a b c d by blast
  qed
qed

text \<open>The same loop for a request without a project: nothing is written.\<close>

lemma stream_loop_no_project:
  assumes n: "\<forall>n. gone_at = Some n \<longrightarrow> k \<le> n"
  shows "stream_loop J gone_at k None rid tds w
           = (map (\<lambda>m. (m, w))
                (case gone_at of
                   None \<Rightarrow> map (\<lambda>x. Claude_json (snd x)) tds
                 | Some n \<Rightarrow> take (Suc n - k) (map (\<lambda>x. Claude_json (snd x)) tds)),
              w, if \<exists>n. gone_at = Some n \<and> n < k + length tds then Returned else Finished)"
  using n
proof (induction tds arbitrary: k)
  case Nil
  then show ?case by (cases gone_at) auto
next
  case (Cons td tds)
  obtain t d where td: "td = (t, d)" by (cases td)
  show ?case
  proof (cases "gone_at = Some k")
    case True
    then show ?thesis by (simp add: td write_if_project_def)
  next
    case False
    have n1: "\<forall>n. gone_at = Some n \<longrightarrow> Suc k \<le> n"
      using Cons.prems False by (auto simp: le_less Suc_le_eq)
    show ?thesis
    proof (cases gone_at)
      case None
      then show ?thesis using Cons.IH [OF n1] by (simp add: td write_if_project_def)
    next
      case (Some m)
      then have "Suc k \<le> m" using n1 by simp
      then have "Suc m - k = Suc (Suc m - Suc k)" by simp
      then show ?thesis using Cons.IH [OF n1] Some False
        by (simp add: td write_if_project_def)
    qed
  qed
qed

lemma snapshots_snoc:
  assumes s: "\<forall>k<length ys. grown J path rid (take (Suc k) (map fst ys)) w (snd (ys ! k))"
    and g: "grown J path rid (map fst ys) w w3"
    and t: "grown J path rid [t] w3 w4"
  shows "\<forall>k<length (ys @ [(t, w4)]).
           grown J path rid (take (Suc k) (map fst (ys @ [(t, w4)]))) w (snd ((ys @ [(t, w4)]) ! k))"
proof (intro allI impI)
  fix k assume k: "k < length (ys @ [(t, w4)])"
  show "grown J path rid (take (Suc k) (map fst (ys @ [(t, w4)]))) w (snd ((ys @ [(t, w4)]) ! k))"
  proof (cases "k < length ys")
    case True
    then show ?thesis using s by (simp add: nth_append)
  next
    case False
    then have "k = length ys" using k by simp
    then show ?thesis using grown_trans [OF g t] by simp
  qed
qed

text \<open>How the generator's run follows from that of its \<open>try\<close> and \<open>catch\<close> blocks.\<close>

lemma run_of_try:
  assumes "try_block J gone_at started (getEncodedProjectName workingDirectory) rid authMode eng w
             = (ys, w1, out)"
    and "out = Finished \<or> out = Returned"
  shows "executeClaudeCommand J gone_at started rid workingDirectory authMode eng w
           = \<lparr>yielded = ys,
              final = w1\<lparr>requestAbortControllers := requestAbortControllers w1 - {rid}\<rparr>,
              thrown = None\<rparr>"
  using assms by (auto simp: executeClaudeCommand_def)

lemma run_of_catch:
  assumes "try_block J gone_at started (getEncodedProjectName workingDirectory) rid authMode eng w
             = (ys, w1, Raised x)"
    and "write_if_project J (ended_at eng) (getEncodedProjectName workingDirectory) rid
           (error_response x) w1 = Inr w2"
  shows "executeClaudeCommand J gone_at started rid workingDirectory authMode eng w
           = \<lparr>yielded = ys @ [(error_response x, w2)],
              final = w2\<lparr>requestAbortControllers := requestAbortControllers w2 - {rid}\<rparr>,
              thrown = None\<rparr>"
  using assms by (simp add: executeClaudeCommand_def catch_block_def)

lemma drawn_all:
  "\<forall>n. gone_at = Some n \<longrightarrow> length xs \<le> Suc n \<Longrightarrow> drawn gone_at xs = xs"
  by (cases gone_at) (simp_all add: drawn_def)

lemma drawn_prefix:
  "gone_at = Some n \<Longrightarrow> n < length xs \<Longrightarrow> drawn gone_at (xs @ [t]) = take (Suc n) xs"
  by (simp add: drawn_def)

text \<open>
  A run for a request with a project, where the runtime creates the directory and accepts
  the appends: it throws nothing, it yields the engine's messages and the terminal
  response, up to the one at which the consumer returns the generator, and each is in the
  log and counted when it is yielded.
\<close>

lemma run_with_project:
  fixes J :: "'d JSON" and rid :: string and started :: int
  assumes h: "getEnv w ''HOME'' = Some homeDir" "homeDir \<noteq> []"
    and e: "getEncodedProjectName workingDirectory = Some p"
    and d: "streaming_dir homeDir p \<notin> ensureDir_fails w"
    and a: "streaming_path homeDir p rid \<notin> append_fails w"
  defines "path \<equiv> streaming_path homeDir p rid"
  defines "w0 \<equiv> w\<lparr>requestAbortControllers := insert rid (requestAbortControllers w),
                   requestStatuses :=
                     map_set rid \<lparr>requestId = rid, filePath = streaming_path homeDir p rid,
                                  status = IN_PROGRESS, totalMessages = 0, lastUpdated = started\<rparr>
                       (requestStatuses w)\<rparr>"
  shows "\<exists>ys wf. executeClaudeCommand J gone_at started rid workingDirectory authMode eng w
            = \<lparr>yielded = ys,
               final = wf\<lparr>requestAbortControllers := requestAbortControllers wf - {rid}\<rparr>,
               thrown = None\<rparr>
         \<and> map fst ys = drawn gone_at
                          (map (\<lambda>x. Claude_json (snd x)) (fst (run_end w authMode eng))
                             @ [terminal_entry (snd (run_end w authMode eng))])
         \<and> grown J path rid (map fst ys) w0 wf
         \<and> (\<forall>k<length ys. grown J path rid (take (Suc k) (map fst ys)) w0 (snd (ys ! k)))"
proof -
  let ?w1 = "w\<lparr>requestAbortControllers := insert rid (requestAbortControllers w)\<rparr>"
  let ?i0 = "\<lparr>requestId = rid, filePath = streaming_path homeDir p rid,
              status = IN_PROGRESS, totalMessages = 0, lastUpdated = started\<rparr>"
  let ?enc = "getEncodedProjectName workingDirectory"
  have p: "p \<noteq> []" using e by (rule getEncodedProjectName_nonempty)
  have h1: "getEnv ?w1 ''HOME'' = Some homeDir" using h by simp
  have d1: "streaming_dir homeDir p \<notin> ensureDir_fails ?w1" using d by simp
  have init: "initializeStreaming started p rid ?w1 = Inr w0"
    using initializeStreaming_home [OF h1 h(2) d1, of started rid] by (simp add: w0_def)
  have h0: "getEnv w0 ''HOME'' = Some homeDir" using h by (simp add: w0_def)
  have a0: "path \<notin> append_fails w0" using a by (simp add: w0_def path_def)
  have k0: "getEnv w0 ''ANTHROPIC_API_KEY'' = getEnv w ''ANTHROPIC_API_KEY''" by (simp add: w0_def)
  have i0: "map_of (requestStatuses w0) rid = Some ?i0" by (simp add: w0_def map_of_map_set)
  have wr: "\<exists>w4. write_if_project J (ended_at eng) ?enc rid t wp = Inr w4
                \<and> grown J path rid [t] wp w4"
    if g: "grown J path rid ms w0 wp" for ms wp and t :: "'d StreamResponse"
  proof -
    have hp: "getEnv wp ''HOME'' = Some homeDir" using grown_env [OF g] h0 by simp
    obtain ip where ip: "map_of (requestStatuses wp) rid = Some ip"
      using grown_entry [OF g] by blast
    have ap: "streaming_path homeDir p rid \<notin> append_fails wp"
      using grown_append_fails [OF g] a0 by (simp add: path_def)
    show ?thesis
      using appendMessage_grown [OF hp h(2) ip ap, of J "ended_at eng" t] p
      unfolding path_def by (auto simp: e write_if_project_def)
  qed
  have snoc: "\<exists>ys wf. executeClaudeCommand J gone_at started rid workingDirectory authMode eng w
            = \<lparr>yielded = ys,
               final = wf\<lparr>requestAbortControllers := requestAbortControllers wf - {rid}\<rparr>,
               thrown = None\<rparr>
         \<and> map fst ys = drawn gone_at (map (\<lambda>x. Claude_json (snd x)) tds @ [t])
         \<and> grown J path rid (map fst ys) w0 wf
         \<and> (\<forall>k<length ys. grown J path rid (take (Suc k) (map fst ys)) w0 (snd (ys ! k)))"
    if r: "executeClaudeCommand J gone_at started rid workingDirectory authMode eng w
            = \<lparr>yielded = pre @ [(t, w4)],
               final = w4\<lparr>requestAbortControllers := requestAbortControllers w4 - {rid}\<rparr>,
               thrown = None\<rparr>"
      and m: "map fst pre = map (\<lambda>x. Claude_json (snd x)) tds"
      and n: "\<forall>n. gone_at = Some n \<longrightarrow> length tds \<le> n"
      and g: "grown J path rid (map fst pre) w0 wp"
      and s: "\<forall>k<length pre. grown J path rid (take (Suc k) (map fst pre)) w0 (snd (pre ! k))"
      and gt: "grown J path rid [t] wp w4"
    for pre wp w4 tds and t :: "'d StreamResponse"
  proof -
    have "drawn gone_at (map (\<lambda>x. Claude_json (snd x)) tds @ [t])
            = map (\<lambda>x. Claude_json (snd x)) tds @ [t]"
      using n by (intro drawn_all) simp
    then have "map fst (pre @ [(t, w4)]) = drawn gone_at (map (\<lambda>x. Claude_json (snd x)) tds @ [t])"
      using m by simp
    moreover have "grown J path rid (map fst (pre @ [(t, w4)])) w0 w4"
      using grown_trans [OF g gt] by simp
    ultimately show ?thesis
      using r snapshots_snoc [OF s g gt] by blast
  qed
  show ?thesis
  proof (cases "authMode = Some ''api_key''
         \<and> (getEnv w ''ANTHROPIC_API_KEY'' = None \<or> getEnv w ''ANTHROPIC_API_KEY'' = Some [])")
    case True
    let ?x = "Error ''API Key mode requested but ANTHROPIC_API_KEY not found''"
    have tb: "try_block J gone_at started ?enc rid authMode eng w = ([], w0, Raised ?x)"
      using True p init k0 by (auto simp: e try_block_def Let_def)
    have re: "run_end w authMode eng = ([], Throws ?x)"
      using True by (auto simp: run_end_def)
    have g: "grown J path rid (map fst ([] :: ('d StreamResponse \<times> world) list)) w0 w0"
      using grown_refl [OF i0] by simp
    obtain w4 where w4: "write_if_project J (ended_at eng) ?enc rid (error_response ?x) w0 = Inr w4"
        "grown J path rid [error_response ?x :: 'd StreamResponse] w0 w4"
      using wr [OF g, of "error_response ?x"] by blast
    have r: "executeClaudeCommand J gone_at started rid workingDirectory authMode eng w
            = \<lparr>yielded = [] @ [(error_response ?x, w4)],
               final = w4\<lparr>requestAbortControllers := requestAbortControllers w4 - {rid}\<rparr>,
               thrown = None\<rparr>"
      using run_of_catch [OF tb w4(1)] by simp
    have m: "map fst ([] :: ('d StreamResponse \<times> world) list)
               = map (\<lambda>x. Claude_json (snd x)) ([] :: (int \<times> 'd) list)"
      by simp
    have n: "\<forall>n. gone_at = Some n \<longrightarrow> length ([] :: (int \<times> 'd) list) \<le> n" by simp
    have s: "\<forall>k<length ([] :: ('d StreamResponse \<times> world) list).
               grown J path rid (take (Suc k) (map fst [])) w0 (snd ([] ! k))"
      by simp
    have "\<exists>ys wf. executeClaudeCommand J gone_at started rid workingDirectory authMode eng w
            = \<lparr>yielded = ys,
               final = wf\<lparr>requestAbortControllers := requestAbortControllers wf - {rid}\<rparr>,
               thrown = None\<rparr>
         \<and> map fst ys = drawn gone_at (map (\<lambda>x. Claude_json (snd x)) ([] :: (int \<times> 'd) list)
                                         @ [error_response ?x])
         \<and> grown J path rid (map fst ys) w0 wf
         \<and> (\<forall>k<length ys. grown J path rid (take (Suc k) (map fst ys)) w0 (snd (ys ! k)))"
      by (rule snoc [OF r m n g s w4(2)])
    then show ?thesis by (simp add: re)
  next
    case False
    then have re: "run_end w authMode eng = (sdkMessages eng, ending eng)"
      by (auto simp: run_end_def)
    let ?all = "map (\<lambda>x. Claude_json (snd x)) (sdkMessages eng)"
    let ?out = "if \<exists>n. gone_at = Some n \<and> n < 0 + length (sdkMessages eng)
                then Returned else Finished"
    have n0: "\<forall>n. gone_at = Some n \<longrightarrow> 0 \<le> n" by simp
    obtain ys1 w5 where sl:
        "stream_loop J gone_at 0 (Some p) rid (sdkMessages eng) w0 = (ys1, w5, ?out)"
        "map fst ys1 = (case gone_at of None \<Rightarrow> ?all | Some n \<Rightarrow> take (Suc n - 0) ?all)"
        "grown J path rid (map fst ys1) w0 w5"
        "\<forall>k<length ys1. grown J path rid (take (Suc k) (map fst ys1)) w0 (snd (ys1 ! k))"
      using stream_loop_grown [OF h0 h(2) p i0 a0 [unfolded path_def] n0, of J "sdkMessages eng"]
      unfolding path_def by blast
    show ?thesis
    proof (cases "\<exists>n. gone_at = Some n \<and> n < length (sdkMessages eng)")
      case True
      then obtain n where n: "gone_at = Some n" "n < length (sdkMessages eng)" by blast
      have tb: "try_block J gone_at started ?enc rid authMode eng w = (ys1, w5, Returned)"
        using False p init k0 sl(1) n by (auto simp: e try_block_def Let_def)
      have r: "executeClaudeCommand J gone_at started rid workingDirectory authMode eng w
            = \<lparr>yielded = ys1,
               final = w5\<lparr>requestAbortControllers := requestAbortControllers w5 - {rid}\<rparr>,
               thrown = None\<rparr>"
        by (rule run_of_try [OF tb]) simp
      have m: "map fst ys1 = drawn gone_at (?all @ [terminal_entry (ending eng)])"
        using sl(2) n by (simp add: drawn_prefix)
      have "\<exists>ys wf. executeClaudeCommand J gone_at started rid workingDirectory authMode eng w
            = \<lparr>yielded = ys,
               final = wf\<lparr>requestAbortControllers := requestAbortControllers wf - {rid}\<rparr>,
               thrown = None\<rparr>
         \<and> map fst ys = drawn gone_at (?all @ [terminal_entry (ending eng)])
         \<and> grown J path rid (map fst ys) w0 wf
         \<and> (\<forall>k<length ys. grown J path rid (take (Suc k) (map fst ys)) w0 (snd (ys ! k)))"
        using r m sl(3) sl(4) by blast
      then show ?thesis by (simp add: re)
    next
      case stays: False
      then have n: "\<forall>n. gone_at = Some n \<longrightarrow> length (sdkMessages eng) \<le> n"
        by (auto simp: not_less)
      have m: "map fst ys1 = ?all"
        using sl(2) n by (cases gone_at) simp_all
      have l: "length ys1 = length (sdkMessages eng)"
        using arg_cong [OF m, of length] by simp
      have out: "?out = Finished" using stays by simp
      show ?thesis
      proof (cases "ending eng")
        case Completes
        obtain w4 where w4: "write_if_project J (ended_at eng) ?enc rid Done w5 = Inr w4"
            "grown J path rid [Done :: 'd StreamResponse] w5 w4"
          using wr [OF sl(3), of Done] by blast
        have tb: "try_block J gone_at started ?enc rid authMode eng w
                    = (ys1 @ [(Done, w4)], w4,
                       if gone_at = Some (length ys1) then Returned else Finished)"
          using False p init k0 sl(1) Completes w4(1) out
          by (auto simp: e try_block_def Let_def)
        have r: "executeClaudeCommand J gone_at started rid workingDirectory authMode eng w
            = \<lparr>yielded = ys1 @ [(Done, w4)],
               final = w4\<lparr>requestAbortControllers := requestAbortControllers w4 - {rid}\<rparr>,
               thrown = None\<rparr>"
          by (rule run_of_try [OF tb]) simp
        have "\<exists>ys wf. executeClaudeCommand J gone_at started rid workingDirectory authMode eng w
            = \<lparr>yielded = ys,
               final = wf\<lparr>requestAbortControllers := requestAbortControllers wf - {rid}\<rparr>,
               thrown = None\<rparr>
         \<and> map fst ys = drawn gone_at (?all @ [Done])
         \<and> grown J path rid (map fst ys) w0 wf
         \<and> (\<forall>k<length ys. grown J path rid (take (Suc k) (map fst ys)) w0 (snd (ys ! k)))"
          by (rule snoc [OF r m n sl(3) sl(4) w4(2)])
        then show ?thesis by (simp add: re Completes)
      next
        case (Throws x)
        obtain w4 where w4: "write_if_project J (ended_at eng) ?enc rid (error_response x) w5 = Inr w4"
            "grown J path rid [error_response x :: 'd StreamResponse] w5 w4"
          using wr [OF sl(3), of "error_response x"] by blast
        have tb: "try_block J gone_at started ?enc rid authMode eng w = (ys1, w5, Raised x)"
          using False p init k0 sl(1) Throws out
          by (auto simp: e try_block_def Let_def)
        have r: "executeClaudeCommand J gone_at started rid workingDirectory authMode eng w
            = \<lparr>yielded = ys1 @ [(error_response x, w4)],
               final = w4\<lparr>requestAbortControllers := requestAbortControllers w4 - {rid}\<rparr>,
               thrown = None\<rparr>"
          by (rule run_of_catch [OF tb w4(1)])
        have "\<exists>ys wf. executeClaudeCommand J gone_at started rid workingDirectory authMode eng w
            = \<lparr>yielded = ys,
               final = wf\<lparr>requestAbortControllers := requestAbortControllers wf - {rid}\<rparr>,
               thrown = None\<rparr>
         \<and> map fst ys = drawn gone_at (?all @ [error_response x])
         \<and> grown J path rid (map fst ys) w0 wf
         \<and> (\<forall>k<length ys. grown J path rid (take (Suc k) (map fst ys)) w0 (snd (ys ! k)))"
          by (rule snoc [OF r m n sl(3) sl(4) w4(2)])
        then show ?thesis by (simp add: re Throws terminal_entry_Throws)
      qed
    qed
  qed
qed

text \<open>
  A run for a request without a project: it throws nothing, it yields the same
  responses, and the world at every yield is the one in which the run began, but for the
  abort controller it has registered.
\<close>

lemma run_without_project:
  fixes J :: "'d JSON"
  assumes e: "getEncodedProjectName workingDirectory = None"
  shows "executeClaudeCommand J gone_at started rid workingDirectory authMode eng w
           = \<lparr>yielded = map (\<lambda>m. (m, w\<lparr>requestAbortControllers :=
                                           insert rid (requestAbortControllers w)\<rparr>))
                          (drawn gone_at
                             (map (\<lambda>x. Claude_json (snd x)) (fst (run_end w authMode eng))
                                @ [terminal_entry (snd (run_end w authMode eng))])),
              final = w\<lparr>requestAbortControllers := requestAbortControllers w - {rid}\<rparr>,
              thrown = None\<rparr>"
proof -
  let ?w1 = "w\<lparr>requestAbortControllers := insert rid (requestAbortControllers w)\<rparr>"
  let ?enc = "getEncodedProjectName workingDirectory"
  have f: "?w1\<lparr>requestAbortControllers := requestAbortControllers ?w1 - {rid}\<rparr>
             = w\<lparr>requestAbortControllers := requestAbortControllers w - {rid}\<rparr>"
    by simp
  have wr: "write_if_project J now ?enc rid t ?w1 = Inr ?w1" for now and t :: "'d StreamResponse"
    by (simp add: e write_if_project_def)
  show ?thesis
  proof (cases "authMode = Some ''api_key''
         \<and> (getEnv w ''ANTHROPIC_API_KEY'' = None \<or> getEnv w ''ANTHROPIC_API_KEY'' = Some [])")
    case True
    let ?x = "Error ''API Key mode requested but ANTHROPIC_API_KEY not found''"
    have tb: "try_block J gone_at started ?enc rid authMode eng w = ([], ?w1, Raised ?x)"
      using True by (auto simp: e try_block_def Let_def)
    have re: "run_end w authMode eng = ([], Throws ?x)"
      using True by (auto simp: run_end_def)
    have dr: "drawn gone_at [error_response ?x :: 'd StreamResponse] = [error_response ?x]"
      by (intro drawn_all) simp
    show ?thesis
      using run_of_catch [OF tb wr] dr unfolding f by (simp add: re)
  next
    case False
    then have re: "run_end w authMode eng = (sdkMessages eng, ending eng)"
      by (auto simp: run_end_def)
    let ?all = "map (\<lambda>x. Claude_json (snd x)) (sdkMessages eng)"
    have n0: "\<forall>n. gone_at = Some n \<longrightarrow> 0 \<le> n" by simp
    have sl: "stream_loop J gone_at 0 None rid (sdkMessages eng) ?w1
           = (map (\<lambda>m. (m, ?w1))
                (case gone_at of None \<Rightarrow> ?all | Some n \<Rightarrow> take (Suc n - 0) ?all),
              ?w1, if \<exists>n. gone_at = Some n \<and> n < 0 + length (sdkMessages eng)
                   then Returned else Finished)"
      by (rule stream_loop_no_project [OF n0])
    show ?thesis
    proof (cases "\<exists>n. gone_at = Some n \<and> n < length (sdkMessages eng)")
      case True
      then obtain n where n: "gone_at = Some n" "n < length (sdkMessages eng)" by blast
      have tb: "try_block J gone_at started ?enc rid authMode eng w
                  = (map (\<lambda>m. (m, ?w1)) (take (Suc n) ?all), ?w1, Returned)"
        using False sl n by (auto simp: e try_block_def Let_def)
      show ?thesis
        using run_of_try [OF tb] n unfolding f by (simp add: re drawn_prefix)
    next
      case stays: False
      then have n: "\<forall>n. gone_at = Some n \<longrightarrow> length (sdkMessages eng) \<le> n"
        by (auto simp: not_less)
      have m: "(case gone_at of None \<Rightarrow> ?all | Some n \<Rightarrow> take (Suc n - 0) ?all) = ?all"
        using n by (cases gone_at) simp_all
      have sl': "stream_loop J gone_at 0 None rid (sdkMessages eng) ?w1
                   = (map (\<lambda>m. (m, ?w1)) ?all, ?w1, Finished)"
        using sl stays unfolding m by simp
      have dr: "drawn gone_at (?all @ [t]) = ?all @ [t]" for t :: "'d StreamResponse"
        using n by (intro drawn_all) simp
      show ?thesis
      proof (cases "ending eng")
        case Completes
        have tb: "try_block J gone_at started ?enc rid authMode eng w
                    = (map (\<lambda>m. (m, ?w1)) ?all @ [(Done, ?w1)], ?w1,
                       if gone_at = Some (length (map (\<lambda>m. (m, ?w1)) ?all))
                       then Returned else Finished)"
          using False sl' Completes by (auto simp: e try_block_def Let_def write_if_project_def)
        show ?thesis
          using run_of_try [OF tb] dr [of Done] unfolding f by (simp add: re Completes)
      next
        case (Throws x)
        have tb: "try_block J gone_at started ?enc rid authMode eng w
                    = (map (\<lambda>m. (m, ?w1)) ?all, ?w1, Raised x)"
          using False sl' Throws by (auto simp: e try_block_def Let_def)
        show ?thesis
          using run_of_catch [OF tb wr] dr [of "error_response x"] unfolding f
          by (simp add: re Throws terminal_entry_Throws)
      qed
    qed
  qed
qed

lemma grown_log_total:
  assumes g: "grown J path rid ms w0 w'"
    and i0: "map_of (requestStatuses w0) rid = Some i0"
  shows "log_of w' path = log_of w0 path @ log_text J ms"
    and "map_option totalMessages (getRequestStatus w' rid) = Some (totalMessages i0 + length ms)"
    and "map_option status (getRequestStatus w' rid)
           = Some (foldl (\<lambda>s m. status_after m s) (status i0) ms)"
  using g i0 unfolding grown_def getRequestStatus_def by auto



lemma delivered_of_run:
  assumes t: "thrown r = None" and y: "map fst (yielded r) = drawn gone_at xs"
  shows "handleChatRequest gone_at r
           = (case gone_at of None \<Rightarrow> map fst (yielded r) | Some n \<Rightarrow> take n (map fst (yielded r)))"
    and "handleChatRequest gone_at r = (case gone_at of None \<Rightarrow> xs | Some n \<Rightarrow> take n xs)"
proof -
  show "handleChatRequest gone_at r
          = (case gone_at of None \<Rightarrow> map fst (yielded r) | Some n \<Rightarrow> take n (map fst (yielded r)))"
    using t by (simp add: handleChatRequest_def Let_def)
  show "handleChatRequest gone_at r = (case gone_at of None \<Rightarrow> xs | Some n \<Rightarrow> take n xs)"
    using t y by (cases gone_at) (simp_all add: handleChatRequest_def Let_def drawn_def min_def)
qed

text \<open>
  C2, as the code has it. Let \<open>responses\<close> be the engine's messages followed by the
  terminal response.

  For a request with a working directory, under a set \<open>HOME\<close>, where the runtime creates
  the streaming directory and accepts the appends to the log: what \<open>handleChatRequest\<close>
  puts on the stream is \<open>responses\<close>, up to the moment the client is gone; these are the
  first responses the generator yields; and at the moment the generator yields its
  \<open>k\<close>-th response, the log holds, after what it held before the run, the lines of the
  responses yielded so far including this one, and the registry entry counts them. So no
  response is forwarded before it is in the log and in the registry.

  For a request without a working directory the same responses are put on the stream,
  and the registry and the files are, at every yield and at the end of the run, as they
  were before it.
\<close>

theorem persisted_before_yield:
  fixes J :: "'d JSON" and rid :: string and started :: int and eng :: "'d engine"
    and authMode :: "string option" and gone_at :: "nat option" and w :: world
    and workingDirectory :: "string option"
  defines "r \<equiv> executeClaudeCommand J gone_at started rid workingDirectory authMode eng w"
  defines "responses \<equiv> map (\<lambda>x. Claude_json (snd x)) (fst (run_end w authMode eng))
                         @ [terminal_entry (snd (run_end w authMode eng))]"
  shows "(getEnv w ''HOME'' = Some homeDir \<and> homeDir \<noteq> []
          \<and> getEncodedProjectName workingDirectory = Some p
          \<and> streaming_dir homeDir p \<notin> ensureDir_fails w
          \<and> streaming_path homeDir p rid \<notin> append_fails w
          \<longrightarrow> handleChatRequest gone_at r
                = (case gone_at of None \<Rightarrow> responses | Some n \<Rightarrow> take n responses)
              \<and> handleChatRequest gone_at r
                  = (case gone_at of None \<Rightarrow> map fst (yielded r)
                     | Some n \<Rightarrow> take n (map fst (yielded r)))
              \<and> (\<forall>k<length (yielded r).
                    log_of (snd (yielded r ! k)) (streaming_path homeDir p rid)
                      = log_of w (streaming_path homeDir p rid)
                          @ log_text J (map fst (take (Suc k) (yielded r)))
                    \<and> map_option totalMessages (getRequestStatus (snd (yielded r ! k)) rid)
                        = Some (Suc k)))
         \<and> (getEncodedProjectName workingDirectory = None
          \<longrightarrow> handleChatRequest gone_at r
                = (case gone_at of None \<Rightarrow> responses | Some n \<Rightarrow> take n responses)
              \<and> handleChatRequest gone_at r
                  = (case gone_at of None \<Rightarrow> map fst (yielded r)
                     | Some n \<Rightarrow> take n (map fst (yielded r)))
              \<and> (\<forall>k<length (yielded r).
                    requestStatuses (snd (yielded r ! k)) = requestStatuses w
                    \<and> files (snd (yielded r ! k)) = files w)
              \<and> requestStatuses (final r) = requestStatuses w
              \<and> files (final r) = files w)"
proof (intro conjI impI)
  assume a: "getEnv w ''HOME'' = Some homeDir \<and> homeDir \<noteq> []
          \<and> getEncodedProjectName workingDirectory = Some p
          \<and> streaming_dir homeDir p \<notin> ensureDir_fails w
          \<and> streaming_path homeDir p rid \<notin> append_fails w"
  let ?path = "streaming_path homeDir p rid"
  let ?i0 = "\<lparr>requestId = rid, filePath = ?path, status = IN_PROGRESS,
              totalMessages = 0, lastUpdated = started\<rparr>"
  let ?w0 = "w\<lparr>requestAbortControllers := insert rid (requestAbortControllers w),
               requestStatuses := map_set rid ?i0 (requestStatuses w)\<rparr>"
  obtain ys wf where r: "r = \<lparr>yielded = ys,
               final = wf\<lparr>requestAbortControllers := requestAbortControllers wf - {rid}\<rparr>,
               thrown = None\<rparr>"
    and m: "map fst ys = drawn gone_at responses"
    and s: "\<forall>k<length ys. grown J ?path rid (take (Suc k) (map fst ys)) ?w0 (snd (ys ! k))"
    using run_with_project [of w homeDir workingDirectory p rid J gone_at started authMode eng] a
    unfolding r_def responses_def by blast
  have t: "thrown r = None" and y: "map fst (yielded r) = drawn gone_at responses"
    using r m by simp_all
  show "handleChatRequest gone_at r
          = (case gone_at of None \<Rightarrow> responses | Some n \<Rightarrow> take n responses)"
    by (rule delivered_of_run(2) [OF t y])
  show "handleChatRequest gone_at r
          = (case gone_at of None \<Rightarrow> map fst (yielded r)
             | Some n \<Rightarrow> take n (map fst (yielded r)))"
    by (rule delivered_of_run(1) [OF t y])
  have i0: "map_of (requestStatuses ?w0) rid = Some ?i0" by (simp add: map_of_map_set)
  have l0: "log_of ?w0 ?path = log_of w ?path" by (simp add: log_of_def)
  show "\<forall>k<length (yielded r).
          log_of (snd (yielded r ! k)) ?path
            = log_of w ?path @ log_text J (map fst (take (Suc k) (yielded r)))
          \<and> map_option totalMessages (getRequestStatus (snd (yielded r ! k)) rid) = Some (Suc k)"
  proof (intro allI impI)
    fix k assume "k < length (yielded r)"
    then have k: "k < length ys" using r by simp
    then have g: "grown J ?path rid (take (Suc k) (map fst ys)) ?w0 (snd (ys ! k))"
      and n: "length (take (Suc k) (map fst ys)) = Suc k"
      using s by simp_all
    show "log_of (snd (yielded r ! k)) ?path
            = log_of w ?path @ log_text J (map fst (take (Suc k) (yielded r)))
          \<and> map_option totalMessages (getRequestStatus (snd (yielded r ! k)) rid) = Some (Suc k)"
      using grown_log_total(1,2) [OF g i0] n l0 by (simp add: r take_map)
  qed
next
  assume e: "getEncodedProjectName workingDirectory = None"
  let ?w1 = "w\<lparr>requestAbortControllers := insert rid (requestAbortControllers w)\<rparr>"
  have r: "r = \<lparr>yielded = map (\<lambda>m. (m, ?w1)) (drawn gone_at responses),
                final = w\<lparr>requestAbortControllers := requestAbortControllers w - {rid}\<rparr>,
                thrown = None\<rparr>"
    unfolding r_def responses_def by (rule run_without_project [OF e])
  have t: "thrown r = None" and y: "map fst (yielded r) = drawn gone_at responses"
    using r by (simp_all add: comp_def)
  show "handleChatRequest gone_at r
          = (case gone_at of None \<Rightarrow> responses | Some n \<Rightarrow> take n responses)"
    by (rule delivered_of_run(2) [OF t y])
  show "handleChatRequest gone_at r
          = (case gone_at of None \<Rightarrow> map fst (yielded r)
             | Some n \<Rightarrow> take n (map fst (yielded r)))"
    by (rule delivered_of_run(1) [OF t y])
  show "\<forall>k<length (yielded r).
          requestStatuses (snd (yielded r ! k)) = requestStatuses w
          \<and> files (snd (yielded r ! k)) = files w"
    by (simp add: r)
  show "requestStatuses (final r) = requestStatuses w" by (simp add: r)
  show "files (final r) = files w" by (simp add: r)
qed


text \<open>
  C5, as the code has it. Under a set \<open>HOME\<close>, where the runtime creates the streaming
  directory, \<open>initializeStreaming\<close> does not fail, whatever the registry holds: afterwards
  the entry of the request is a fresh one (in progress, no messages, the new time), the
  entries of other requests and all files are as before; and where the runtime also
  accepts the appends to the log, a run of the handler for a request with a working
  directory throws nothing, whether or not the request was registered before.
\<close>

theorem register_replaces_entry:
  fixes J :: "'d JSON"
  assumes h: "getEnv w ''HOME'' = Some homeDir" "homeDir \<noteq> []"
    and d: "streaming_dir homeDir p \<notin> ensureDir_fails w"
  shows "(case initializeStreaming now p rid w of
            Inl e \<Rightarrow> False
          | Inr w' \<Rightarrow>
              getRequestStatus w' rid
                = Some \<lparr>requestId = rid, filePath = streaming_path homeDir p rid,
                        status = IN_PROGRESS, totalMessages = 0, lastUpdated = now\<rparr>
              \<and> files w' = files w
              \<and> (\<forall>other. other \<noteq> rid \<longrightarrow> getRequestStatus w' other = getRequestStatus w other))
         \<and> (getEncodedProjectName workingDirectory = Some p
             \<and> streaming_path homeDir p rid \<notin> append_fails w
              \<longrightarrow> thrown (executeClaudeCommand J gone_at started rid workingDirectory authMode eng w)
                    = None)"
proof -
  have "thrown (executeClaudeCommand J gone_at started rid workingDirectory authMode eng w) = None"
    if e: "getEncodedProjectName workingDirectory = Some p"
      and a: "streaming_path homeDir p rid \<notin> append_fails w"
    using run_with_project [OF h e d a, of J gone_at started authMode eng] by auto
  then show ?thesis
    by (simp add: initializeStreaming_home [OF h d] getRequestStatus_def map_of_map_set)
qed

lemma empty_world_home: "getEnv (empty_world ''/home/u'') ''HOME'' = Some ''/home/u''"
  by (simp add: empty_world_def)

lemma empty_world_accepts:
  "streaming_dir ''/home/u'' ''_w'' \<notin> ensureDir_fails (empty_world ''/home/u'')
   \<and> streaming_path ''/home/u'' ''_w'' ''r1'' \<notin> append_fails (empty_world ''/home/u'')
   \<and> streaming_path ''/home/u'' ''_w'' ''r1'' \<notin> read_fails (empty_world ''/home/u'')"
  by (simp add: empty_world_def)

lemma encoded_w: "getEncodedProjectName (Some ''/w'') = Some ''_w''"
  by code_simp

lemma encoded_none: "getEncodedProjectName None = None"
  by (simp add: getEncodedProjectName_def)

lemma sample_run_end:
  "run_end (empty_world ''/home/u'') None sample_engine = ([(1, ''a'')], Completes)"
  by (simp add: run_end_def sample_engine_def)

text \<open>
  The run of \<open>r1\<close> in \<open>/w\<close> with a client that stays: its first response is in the log
  when it is yielded. The same run without a working directory: the same responses, and
  nothing in the registry or on disk.
\<close>

theorem persisted_before_yield_witness:
  "getEnv (empty_world ''/home/u'') ''HOME'' = Some ''/home/u'' \<and> ''/home/u'' \<noteq> []
   \<and> getEncodedProjectName (Some ''/w'') = Some ''_w''
   \<and> streaming_dir ''/home/u'' ''_w'' \<notin> ensureDir_fails (empty_world ''/home/u'')
   \<and> streaming_path ''/home/u'' ''_w'' ''r1'' \<notin> append_fails (empty_world ''/home/u'')
   \<and> 0 < length (yielded (sample_run None (Some ''/w'') (empty_world ''/home/u'')))
   \<and> handleChatRequest None (sample_run None (Some ''/w'') (empty_world ''/home/u''))
       = [Claude_json ''a'', Done]
   \<and> log_of (snd (yielded (sample_run None (Some ''/w'') (empty_world ''/home/u'')) ! 0))
        (streaming_path ''/home/u'' ''_w'' ''r1'') = ''{ca}'' @ [CHR 0x0A]
   \<and> map_option totalMessages
        (getRequestStatus (snd (yielded (sample_run None (Some ''/w'') (empty_world ''/home/u'')) ! 0))
           ''r1'')
       = Some 1
   \<and> getEncodedProjectName None = None
   \<and> handleChatRequest None (sample_run None None (empty_world ''/home/u''))
       = [Claude_json ''a'', Done]
   \<and> requestStatuses (final (sample_run None None (empty_world ''/home/u''))) = []
   \<and> files (final (sample_run None None (empty_world ''/home/u''))) = Map.empty"
proof -
  let ?w = "empty_world ''/home/u''"
  let ?r = "sample_run None (Some ''/w'') ?w"
  let ?q = "sample_run None None ?w"
  have k: "0 < length (yielded ?r)"
    by code_simp
  have l: "log_of ?w (streaming_path ''/home/u'' ''_w'' ''r1'') = []"
    by code_simp
  have t: "log_text tagged_json (map fst (take (Suc 0) (yielded ?r))) = ''{ca}'' @ [CHR 0x0A]"
    by code_simp
  have n: "getEncodedProjectName None = None"
    by (rule encoded_none)
  have f: "requestStatuses ?w = [] \<and> files ?w = Map.empty"
    by (simp add: empty_world_def)
  have p: "handleChatRequest None ?r = [Claude_json ''a'', Done]
           \<and> (\<forall>k<length (yielded ?r).
                 log_of (snd (yielded ?r ! k)) (streaming_path ''/home/u'' ''_w'' ''r1'')
                   = log_of ?w (streaming_path ''/home/u'' ''_w'' ''r1'')
                       @ log_text tagged_json (map fst (take (Suc k) (yielded ?r)))
                 \<and> map_option totalMessages (getRequestStatus (snd (yielded ?r ! k)) ''r1'')
                     = Some (Suc k))"
    using persisted_before_yield [where J = tagged_json and gone_at = None and started = 0
        and rid = "''r1''" and authMode = None and eng = sample_engine and w = ?w
        and workingDirectory = "Some ''/w''" and homeDir = "''/home/u''" and p = "''_w''",
        folded sample_run_def]
      empty_world_home empty_world_accepts encoded_w
    by (simp add: sample_run_end)
  have q: "handleChatRequest None ?q = [Claude_json ''a'', Done]
           \<and> requestStatuses (final ?q) = requestStatuses ?w \<and> files (final ?q) = files ?w"
    using persisted_before_yield [where J = tagged_json and gone_at = None and started = 0
        and rid = "''r1''" and authMode = None and eng = sample_engine and w = ?w
        and workingDirectory = None, folded sample_run_def] n
    by (simp add: sample_run_end)
  have "log_of (snd (yielded ?r ! 0)) (streaming_path ''/home/u'' ''_w'' ''r1'')
          = ''{ca}'' @ [CHR 0x0A]
        \<and> map_option totalMessages (getRequestStatus (snd (yielded ?r ! 0)) ''r1'') = Some 1"
    using p k l t by simp
  then show ?thesis
    using p q k n f empty_world_home empty_world_accepts encoded_w by simp
qed

text \<open>
  C2 as stated fails. Without a working directory the two responses of the run are put on
  the stream while the registry and the file system stay empty, at the first yield and
  at the end. Without \<open>HOME\<close>, where the runtime refuses the append, and where it refuses
  to create the directory, an error response is put on the stream and nothing is on disk.
\<close>

theorem delivered_without_log:
  "handleChatRequest None (sample_run None None (empty_world ''/home/u''))
     = [Claude_json ''a'', Done]
   \<and> requestStatuses (snd (yielded (sample_run None None (empty_world ''/home/u'')) ! 0)) = []
   \<and> files (snd (yielded (sample_run None None (empty_world ''/home/u'')) ! 0)) = Map.empty
   \<and> requestStatuses (final (sample_run None None (empty_world ''/home/u''))) = []
   \<and> files (final (sample_run None None (empty_world ''/home/u''))) = Map.empty
   \<and> handleChatRequest None (sample_run None (Some ''/w'') no_home)
       = [Error_msg ''HOME environment variable not found'']
   \<and> requestStatuses (final (sample_run None (Some ''/w'') no_home)) = []
   \<and> files (final (sample_run None (Some ''/w'') no_home)) = Map.empty
   \<and> handleChatRequest None (sample_run None (Some ''/w'') no_append)
       = [Error_msg ''appendTextFile failed'']
   \<and> files (final (sample_run None (Some ''/w'') no_append)) = Map.empty
   \<and> handleChatRequest None (sample_run None (Some ''/w'') no_mkdir)
       = [Error_msg ''Request r1 not initialized'']
   \<and> requestStatuses (final (sample_run None (Some ''/w'') no_mkdir)) = []
   \<and> files (final (sample_run None (Some ''/w'') no_mkdir)) = Map.empty"
proof -
  have a: "handleChatRequest None (sample_run None None (empty_world ''/home/u''))
     = [Claude_json ''a'', Done]
   \<and> requestStatuses (snd (yielded (sample_run None None (empty_world ''/home/u'')) ! 0)) = []
   \<and> requestStatuses (final (sample_run None None (empty_world ''/home/u''))) = []
   \<and> handleChatRequest None (sample_run None (Some ''/w'') no_home)
       = [Error_msg ''HOME environment variable not found'']
   \<and> requestStatuses (final (sample_run None (Some ''/w'') no_home)) = []
   \<and> handleChatRequest None (sample_run None (Some ''/w'') no_append)
       = [Error_msg ''appendTextFile failed'']
   \<and> handleChatRequest None (sample_run None (Some ''/w'') no_mkdir)
       = [Error_msg ''Request r1 not initialized'']
   \<and> requestStatuses (final (sample_run None (Some ''/w'') no_mkdir)) = []"
    by code_simp
  have b: "files (snd (yielded (sample_run None None (empty_world ''/home/u'')) ! 0)) = Map.empty
   \<and> files (final (sample_run None None (empty_world ''/home/u''))) = Map.empty
   \<and> files (final (sample_run None (Some ''/w'') no_home)) = Map.empty
   \<and> files (final (sample_run None (Some ''/w'') no_append)) = Map.empty
   \<and> files (final (sample_run None (Some ''/w'') no_mkdir)) = Map.empty"
    by (simp add: sample_run_def sample_engine_def empty_world_def no_home_def no_append_def
      no_mkdir_def executeClaudeCommand_def try_block_def catch_block_def write_if_project_def
      encoded_w encoded_none initializeStreaming_def ensureDir_def
      appendMessage_def appendTextFile_def getStreamingFilePath_def getStreamingDir_def
      streaming_dir_def streaming_path_def Let_def map_of_map_set)
  show ?thesis using a b by simp
qed



lemma encoded_p: "getEncodedProjectName (Some ''p'') = Some ''p''"
  by code_simp

lemma sample_world_accepts:
  "ensureDir_fails (sample_world ''/home/u'') = {} \<and> append_fails (sample_world ''/home/u'') = {}"
  by code_simp

text \<open>
  Registering \<open>r1\<close> again in \<open>sample_world\<close>, where it is completed with two messages.
\<close>

theorem register_replaces_entry_witness:
  "getEnv (sample_world ''/home/u'') ''HOME'' = Some ''/home/u'' \<and> ''/home/u'' \<noteq> []
   \<and> streaming_dir ''/home/u'' ''p'' \<notin> ensureDir_fails (sample_world ''/home/u'')
   \<and> (case initializeStreaming 9 ''p'' ''r1'' (sample_world ''/home/u'') of
         Inl e \<Rightarrow> False
       | Inr w' \<Rightarrow>
           getRequestStatus w' ''r1''
             = Some \<lparr>requestId = ''r1'', filePath = streaming_path ''/home/u'' ''p'' ''r1'',
                     status = IN_PROGRESS, totalMessages = 0, lastUpdated = 9\<rparr>)
   \<and> getEncodedProjectName (Some ''p'') = Some ''p''
   \<and> streaming_path ''/home/u'' ''p'' ''r1'' \<notin> append_fails (sample_world ''/home/u'')
   \<and> thrown (executeClaudeCommand tagged_json None 9 ''r1'' (Some ''p'') None sample_engine
               (sample_world ''/home/u'')) = None"
  using register_replaces_entry [OF sample_world_home, where J = tagged_json and now = 9
      and p = "''p''" and rid = "''r1''" and workingDirectory = "Some ''p''" and started = 9
      and authMode = None and eng = sample_engine and gone_at = None]
  by (simp add: sample_world_home sample_world_accepts encoded_p split: sum.splits)

text \<open>
  C5 as stated fails: registering the completed request \<open>r1\<close> again succeeds and resets
  its status to in progress and its count to 0.
\<close>

theorem register_over_completed_request:
  "map_option (\<lambda>i. (status i, totalMessages i)) (getRequestStatus (sample_world ''/home/u'') ''r1'')
     = Some (COMPLETED, 2)
   \<and> (case initializeStreaming 9 ''p'' ''r1'' (sample_world ''/home/u'') of
         Inl e \<Rightarrow> None
       | Inr w' \<Rightarrow> map_option (\<lambda>i. (status i, totalMessages i)) (getRequestStatus w' ''r1''))
     = Some (IN_PROGRESS, 0)"
  by code_simp

subsection \<open>Recovery on the client\<close>

lemma onResumeMessages_fields:
  "messageIndexRef (onResumeMessages J ms c) = messageIndexRef c"
  "requests (onResumeMessages J ms c) = requests c"
  "callbacks (onResumeMessages J ms c) = callbacks c"
  "timers (onResumeMessages J ms c) = timers c"
  "isRecovering (onResumeMessages J ms c) = isRecovering c"
  "processed (onResumeMessages J ms c) = processed c @ map (stringify J) ms"
  unfolding onResumeMessages_def
  by (induction ms arbitrary: c) (simp_all add: processStreamLine_def)

lemma try_resume_step:
  assumes "try_resume ans rid (onResumeMessages J) c = (c', res)"
  shows "messageIndexRef c' = messageIndexRef c" "attempts c' = Suc (attempts c)"
    "callbacks c' = callbacks c"
    "res = (case attempt_error ans (messageIndexRef c) of Some e \<Rightarrow> Inl e | None \<Rightarrow> Inr ())"
  using assms
  by (auto simp: try_resume_def attempt_error_def Let_def onResumeMessages_fields attempts_def
      split: sum.splits if_splits)

lemma attempts_simps [simp]:
  "attempts (fire cb c) = attempts c"
  "attempts (c\<lparr>isRecovering := b\<rparr>) = attempts c"
  "attempts (c\<lparr>retryCount := n\<rparr>) = attempts c"
  "attempts (c\<lparr>lastError := e\<rparr>) = attempts c"
  "attempts (c\<lparr>timers := ts\<rparr>) = attempts c"
  by (simp_all add: attempts_def fire_def)

lemma fire_simps [simp]:
  "messageIndexRef (fire cb c) = messageIndexRef c"
  "isRecovering (fire cb c) = isRecovering c"
  "callbacks (fire cb c) = callbacks c @ [cb]"
  by (simp_all add: fire_def)

lemma attemptRecovery_stop:
  "maxRetries \<le> int n \<Longrightarrow>
   attemptRecovery maxRetries net rid onResume n c
     = (False, fire OnRecoveryFailed (c\<lparr>isRecovering := False, retryCount := 0\<rparr>))"
  by (subst attemptRecovery.simps) simp

lemma attemptRecovery_step:
  assumes "int n < maxRetries"
    and "try_resume (net n) rid onResume
           (if n = 0 then fire OnRecoveryStart (c\<lparr>isRecovering := True, retryCount := n + 1\<rparr>)
            else c\<lparr>isRecovering := True, retryCount := n + 1\<rparr>) = (c3, res)"
  shows "attemptRecovery maxRetries net rid onResume n c =
     (case res of
        Inr u \<Rightarrow>
          (True, fire OnRecoverySuccess
                   (c3\<lparr>isRecovering := False, retryCount := 0, lastError := None\<rparr>))
      | Inl recoveryError \<Rightarrow>
          if \<not> isNetworkError recoveryError
          then (False, fire OnRecoveryFailed (c3\<lparr>isRecovering := False, retryCount := 0\<rparr>))
          else attemptRecovery maxRetries net rid onResume (n + 1)
                 (c3\<lparr>timers := timers c3 @ [n + 1]\<rparr>))"
proof (cases "n = 0")
  case True
  then show ?thesis
    using assms by (subst attemptRecovery.simps) (simp add: Let_def split: sum.splits)
next
  case False
  then show ?thesis
    using assms by (subst attemptRecovery.simps) (simp add: Let_def split: sum.splits)
qed

lemma recovery_succeeds_after:
  fixes J :: "'d JSON"
  assumes "n \<le> N" "int N < maxRetries"
    and "\<forall>i. n \<le> i \<and> i < N \<longrightarrow> network_failure (net i) (messageIndexRef c)"
    and "attempt_error (net N) (messageIndexRef c) = None"
  shows "fst (attemptRecovery maxRetries net rid (onResumeMessages J) n c)
         \<and> attempts (snd (attemptRecovery maxRetries net rid (onResumeMessages J) n c))
             = attempts c + (N - n) + 1
         \<and> \<not> isRecovering (snd (attemptRecovery maxRetries net rid (onResumeMessages J) n c))
         \<and> last (callbacks (snd (attemptRecovery maxRetries net rid (onResumeMessages J) n c)))
             = OnRecoverySuccess"
  using assms
proof (induction "N - n" arbitrary: n c)
  case 0
  then have n: "n = N" by simp
  let ?c1 = "c\<lparr>isRecovering := True, retryCount := n + 1\<rparr>"
  let ?c2 = "if n = 0 then fire OnRecoveryStart ?c1 else ?c1"
  obtain c3 res where t: "try_resume (net n) rid (onResumeMessages J) ?c2 = (c3, res)"
    by (cases "try_resume (net n) rid (onResumeMessages J) ?c2")
  have m: "messageIndexRef ?c2 = messageIndexRef c" by simp
  have a: "attempts ?c2 = attempts c" by simp
  have res: "res = Inr ()"
    using try_resume_step(4) [OF t] "0.prems"(4) n m by simp
  have lt: "int n < maxRetries" using "0.prems"(2) n by simp
  show ?case
    unfolding attemptRecovery_step [where net = net, OF lt t]
    using res try_resume_step(2) [OF t] a n by simp
next
  case (Suc d)
  then have lt: "n < N" by simp
  then have ltm: "int n < maxRetries" using Suc.prems(2) by simp
  let ?c1 = "c\<lparr>isRecovering := True, retryCount := n + 1\<rparr>"
  let ?c2 = "if n = 0 then fire OnRecoveryStart ?c1 else ?c1"
  obtain c3 res where t: "try_resume (net n) rid (onResumeMessages J) ?c2 = (c3, res)"
    by (cases "try_resume (net n) rid (onResumeMessages J) ?c2")
  have m: "messageIndexRef ?c2 = messageIndexRef c" by simp
  have a: "attempts ?c2 = attempts c" by simp
  have "network_failure (net n) (messageIndexRef c)" using Suc.prems(3) lt by simp
  then obtain e where e: "attempt_error (net n) (messageIndexRef c) = Some e" "isNetworkError e"
    by (auto simp: network_failure_def split: option.splits)
  have res: "res = Inl e" using try_resume_step(4) [OF t] e(1) m by simp
  let ?c4 = "c3\<lparr>timers := timers c3 @ [n + 1]\<rparr>"
  have m4: "messageIndexRef ?c4 = messageIndexRef c" using try_resume_step(1) [OF t] m by simp
  have a4: "attempts ?c4 = Suc (attempts c)" using try_resume_step(2) [OF t] a by simp
  have ih: "fst (attemptRecovery maxRetries net rid (onResumeMessages J) (n + 1) ?c4)
         \<and> attempts (snd (attemptRecovery maxRetries net rid (onResumeMessages J) (n + 1) ?c4))
             = attempts ?c4 + (N - (n + 1)) + 1
         \<and> \<not> isRecovering (snd (attemptRecovery maxRetries net rid (onResumeMessages J) (n + 1) ?c4))
         \<and> last (callbacks (snd (attemptRecovery maxRetries net rid (onResumeMessages J) (n + 1) ?c4)))
             = OnRecoverySuccess"
  proof (rule Suc.hyps(1))
    show "d = N - (n + 1)" using Suc.hyps(2) by simp
    show "n + 1 \<le> N" using lt by simp
    show "int N < maxRetries" by (rule Suc.prems(2))
    show "\<forall>i. n + 1 \<le> i \<and> i < N \<longrightarrow> network_failure (net i) (messageIndexRef ?c4)"
      using Suc.prems(3) m4 by simp
    show "attempt_error (net N) (messageIndexRef ?c4) = None"
      using Suc.prems(4) m4 by simp
  qed
  have go: "attemptRecovery maxRetries net rid (onResumeMessages J) n c
      = attemptRecovery maxRetries net rid (onResumeMessages J) (n + 1) ?c4"
    unfolding attemptRecovery_step [where net = net, OF ltm t] using res e(2) by simp
  show ?case
    unfolding go using ih a4 lt by simp
qed

lemma recovery_gives_up:
  fixes J :: "'d JSON"
  assumes "\<forall>i. n \<le> i \<and> int i < maxRetries \<longrightarrow> network_failure (net i) (messageIndexRef c)"
  shows "\<not> fst (attemptRecovery maxRetries net rid (onResumeMessages J) n c)
         \<and> attempts (snd (attemptRecovery maxRetries net rid (onResumeMessages J) n c))
             = attempts c + nat (maxRetries - int n)
         \<and> \<not> isRecovering (snd (attemptRecovery maxRetries net rid (onResumeMessages J) n c))
         \<and> last (callbacks (snd (attemptRecovery maxRetries net rid (onResumeMessages J) n c)))
             = OnRecoveryFailed"
  using assms
proof (induction "nat (maxRetries - int n)" arbitrary: n c)
  case 0
  then have "maxRetries \<le> int n" by simp
  then show ?case
    unfolding attemptRecovery_stop [OF \<open>maxRetries \<le> int n\<close>] by simp
next
  case (Suc d)
  then have lt: "int n < maxRetries" by linarith
  let ?c1 = "c\<lparr>isRecovering := True, retryCount := n + 1\<rparr>"
  let ?c2 = "if n = 0 then fire OnRecoveryStart ?c1 else ?c1"
  obtain c3 res where t: "try_resume (net n) rid (onResumeMessages J) ?c2 = (c3, res)"
    by (cases "try_resume (net n) rid (onResumeMessages J) ?c2")
  have m: "messageIndexRef ?c2 = messageIndexRef c" by simp
  have a: "attempts ?c2 = attempts c" by simp
  have "network_failure (net n) (messageIndexRef c)" using Suc.prems lt by simp
  then obtain e where e: "attempt_error (net n) (messageIndexRef c) = Some e" "isNetworkError e"
    by (auto simp: network_failure_def split: option.splits)
  have res: "res = Inl e" using try_resume_step(4) [OF t] e(1) m by simp
  let ?c4 = "c3\<lparr>timers := timers c3 @ [n + 1]\<rparr>"
  have m4: "messageIndexRef ?c4 = messageIndexRef c" using try_resume_step(1) [OF t] m by simp
  have a4: "attempts ?c4 = Suc (attempts c)" using try_resume_step(2) [OF t] a by simp
  have ih: "\<not> fst (attemptRecovery maxRetries net rid (onResumeMessages J) (n + 1) ?c4)
         \<and> attempts (snd (attemptRecovery maxRetries net rid (onResumeMessages J) (n + 1) ?c4))
             = attempts ?c4 + nat (maxRetries - int (n + 1))
         \<and> \<not> isRecovering (snd (attemptRecovery maxRetries net rid (onResumeMessages J) (n + 1) ?c4))
         \<and> last (callbacks (snd (attemptRecovery maxRetries net rid (onResumeMessages J) (n + 1) ?c4)))
             = OnRecoveryFailed"
  proof (rule Suc.hyps(1))
    show "d = nat (maxRetries - int (n + 1))" using Suc.hyps(2) by simp
    show "\<forall>i. n + 1 \<le> i \<and> int i < maxRetries \<longrightarrow> network_failure (net i) (messageIndexRef ?c4)"
      using Suc.prems m4 by simp
  qed
  have go: "attemptRecovery maxRetries net rid (onResumeMessages J) n c
      = attemptRecovery maxRetries net rid (onResumeMessages J) (n + 1) ?c4"
    unfolding attemptRecovery_step [where net = net, OF lt t] using res e(2) by simp
  have "attempts c + nat (maxRetries - int n) = Suc (attempts c) + nat (maxRetries - int (n + 1))"
    using lt by simp
  then show ?case
    unfolding go using ih a4 by simp
qed

lemma recovery_keeps_cursor_from:
  "messageIndexRef (snd (attemptRecovery maxRetries net rid (onResumeMessages J) n c))
     = messageIndexRef c"
proof (induction "nat (maxRetries - int n)" arbitrary: n c)
  case 0
  then have "maxRetries \<le> int n" by simp
  then show ?case
    unfolding attemptRecovery_stop [OF \<open>maxRetries \<le> int n\<close>] by simp
next
  case (Suc d)
  then have lt: "int n < maxRetries" by linarith
  let ?c1 = "c\<lparr>isRecovering := True, retryCount := n + 1\<rparr>"
  let ?c2 = "if n = 0 then fire OnRecoveryStart ?c1 else ?c1"
  obtain c3 res where t: "try_resume (net n) rid (onResumeMessages J) ?c2 = (c3, res)"
    by (cases "try_resume (net n) rid (onResumeMessages J) ?c2")
  have m: "messageIndexRef c3 = messageIndexRef c" using try_resume_step(1) [OF t] by simp
  let ?c4 = "c3\<lparr>timers := timers c3 @ [n + 1]\<rparr>"
  have "messageIndexRef (snd (attemptRecovery maxRetries net rid (onResumeMessages J) (n + 1) ?c4))
      = messageIndexRef ?c4"
    by (rule Suc.hyps(1)) (use Suc.hyps(2) in simp)
  then show ?case
    unfolding attemptRecovery_step [where net = net, OF lt t] using m
    by (simp split: sum.splits)
qed

lemma handleNetworkError_network:
  "isNetworkError error \<Longrightarrow>
   handleNetworkError maxRetries net error rid onResume c
     = attemptRecovery maxRetries net rid onResume 0
         (fire OnNetworkError (c\<lparr>lastError := Some error\<rparr>))"
  by (simp add: handleNetworkError_def)

text \<open>
  C7. After a transport failure that \<open>isNetworkError\<close> classifies as a network error:
  if the first \<open>N\<close> recovery attempts fail with network errors, the next one succeeds and
  \<open>N < maxRetries\<close>, then \<open>handleNetworkError\<close> makes exactly \<open>N + 1\<close> attempts and
  reports success; if the first \<open>maxRetries\<close> attempts all fail with network errors, it
  makes exactly \<open>maxRetries\<close> attempts, calls \<open>onRecoveryFailed\<close> last, leaves the
  recovering state and returns failure. An attempt is counted by its status fetch.
\<close>

theorem recovery_attempts:
  fixes J :: "'d JSON" and net :: "nat \<Rightarrow> 'd answers" and maxRetries :: int
    and error :: js_error and rid :: string and c :: client
  assumes ne: "isNetworkError error"
  defines "R \<equiv> handleNetworkError maxRetries net error rid (onResumeMessages J) c"
  shows "(int N < maxRetries
            \<and> (\<forall>i<N. network_failure (net i) (messageIndexRef c))
            \<and> attempt_error (net N) (messageIndexRef c) = None
          \<longrightarrow> fst R \<and> attempts (snd R) = attempts c + N + 1
              \<and> \<not> isRecovering (snd R) \<and> last (callbacks (snd R)) = OnRecoverySuccess)
       \<and> ((\<forall>i<nat maxRetries. network_failure (net i) (messageIndexRef c))
          \<longrightarrow> \<not> fst R \<and> attempts (snd R) = attempts c + nat maxRetries
              \<and> \<not> isRecovering (snd R) \<and> last (callbacks (snd R)) = OnRecoveryFailed)"
proof (intro conjI impI)
  let ?c0 = "fire OnNetworkError (c\<lparr>lastError := Some error\<rparr>)"
  have R: "R = attemptRecovery maxRetries net rid (onResumeMessages J) 0 ?c0"
    unfolding R_def by (rule handleNetworkError_network [OF ne])
  have m: "messageIndexRef ?c0 = messageIndexRef c" by simp
  have a: "attempts ?c0 = attempts c" by simp
  {
    assume s: "int N < maxRetries
            \<and> (\<forall>i<N. network_failure (net i) (messageIndexRef c))
            \<and> attempt_error (net N) (messageIndexRef c) = None"
    have "fst R \<and> attempts (snd R) = attempts ?c0 + (N - 0) + 1
         \<and> \<not> isRecovering (snd R) \<and> last (callbacks (snd R)) = OnRecoverySuccess"
      unfolding R by (rule recovery_succeeds_after) (use s m in simp_all)
    then show "fst R" "attempts (snd R) = attempts c + N + 1" "\<not> isRecovering (snd R)"
      "last (callbacks (snd R)) = OnRecoverySuccess"
      using a by simp_all
  }
  {
    assume s: "\<forall>i<nat maxRetries. network_failure (net i) (messageIndexRef c)"
    have "\<not> fst R \<and> attempts (snd R) = attempts ?c0 + nat (maxRetries - int 0)
         \<and> \<not> isRecovering (snd R) \<and> last (callbacks (snd R)) = OnRecoveryFailed"
      unfolding R by (rule recovery_gives_up) (use s m in simp)
    then show "\<not> fst R" "attempts (snd R) = attempts c + nat maxRetries" "\<not> isRecovering (snd R)"
      "last (callbacks (snd R)) = OnRecoveryFailed"
      using a by simp_all
  }
qed

lemma failed_to_fetch: "isNetworkError (TypeError ''Failed to fetch'')"
  by (simp add: networkErrorMessages_def)

lemma flaky_net_fails: "n < N \<Longrightarrow> network_failure (flaky_net N n) i"
  using failed_to_fetch
  by (simp add: flaky_net_def network_failure_def attempt_error_def checkRequestStatus_def)

lemma flaky_net_answers: "attempt_error (flaky_net N N) i = None"
  by (simp add: flaky_net_def attempt_error_def checkRequestStatus_def resumeStreaming_def)

text \<open>
  Two failures and then success under \<open>maxRetries = 5\<close>: three attempts. Failures
  throughout under \<open>maxRetries = 3\<close>: three attempts, then failure.
\<close>

theorem recovery_attempts_witness:
  "isNetworkError (TypeError ''Failed to fetch'')
   \<and> int 2 < 5
   \<and> network_failure (flaky_net 2 0) (messageIndexRef new_client)
   \<and> network_failure (flaky_net 2 1) (messageIndexRef new_client)
   \<and> attempt_error (flaky_net 2 2) (messageIndexRef new_client) = None
   \<and> fst (handleNetworkError 5 (flaky_net 2) (TypeError ''Failed to fetch'') ''r1''
            (onResumeMessages tagged_json) new_client)
   \<and> attempts (snd (handleNetworkError 5 (flaky_net 2) (TypeError ''Failed to fetch'') ''r1''
                       (onResumeMessages tagged_json) new_client)) = 3
   \<and> network_failure (flaky_net 7 0) (messageIndexRef new_client)
   \<and> network_failure (flaky_net 7 1) (messageIndexRef new_client)
   \<and> network_failure (flaky_net 7 2) (messageIndexRef new_client)
   \<and> \<not> fst (handleNetworkError 3 (flaky_net 7) (TypeError ''Failed to fetch'') ''r1''
              (onResumeMessages tagged_json) new_client)
   \<and> attempts (snd (handleNetworkError 3 (flaky_net 7) (TypeError ''Failed to fetch'') ''r1''
                       (onResumeMessages tagged_json) new_client)) = 3"
proof -
  have a: "\<forall>i<2. network_failure (flaky_net 2 i) (messageIndexRef new_client)"
    by (simp add: flaky_net_fails)
  have b: "\<forall>i<nat 3. network_failure (flaky_net 7 i) (messageIndexRef new_client)"
    by (simp add: flaky_net_fails)
  have z: "attempts new_client = 0" by (simp add: attempts_def new_client_def)
  show ?thesis
    using recovery_attempts [OF failed_to_fetch, where N = 2 and maxRetries = 5
        and net = "flaky_net 2" and c = new_client and rid = "''r1''" and J = tagged_json]
      recovery_attempts [OF failed_to_fetch, where N = 0 and maxRetries = 3
        and net = "flaky_net 7" and c = new_client and rid = "''r1''" and J = tagged_json]
      a b z flaky_net_answers [of 2] failed_to_fetch
    by (simp add: flaky_net_fails)
qed

text \<open>
  C6 fails on the code. A client that has received one line of the live stream (cursor
  1) recovers on the first attempt: it asks for the messages from index 1, receives two
  and hands both to the message processor, and its cursor is still 1 afterwards, not 3.
  The live path advances the cursor with \<open>trackMessage\<close> for every line; the callback
  for resumed messages does not.
\<close>

theorem resumed_messages_leave_cursor:
  "messageIndexRef interrupted_client = 1
   \<and> fst (handleNetworkError 5 (flaky_net 0) (TypeError ''Failed to fetch'') ''r1''
            (onResumeMessages tagged_json) interrupted_client)
   \<and> requests (snd (handleNetworkError 5 (flaky_net 0) (TypeError ''Failed to fetch'') ''r1''
                       (onResumeMessages tagged_json) interrupted_client))
       = [Get_status ''r1'', Get_resume ''r1'' 1]
   \<and> processed (snd (handleNetworkError 5 (flaky_net 0) (TypeError ''Failed to fetch'') ''r1''
                       (onResumeMessages tagged_json) interrupted_client))
       = [''{ca}'', ''{cb}'', ''{d}'']
   \<and> messageIndexRef (snd (handleNetworkError 5 (flaky_net 0) (TypeError ''Failed to fetch'') ''r1''
                       (onResumeMessages tagged_json) interrupted_client)) = 1"
  by code_simp

text \<open>
  In general, no recovery moves the cursor.
\<close>

lemma recovery_keeps_cursor:
  "messageIndexRef (snd (handleNetworkError maxRetries net error rid (onResumeMessages J) c))
     = messageIndexRef c"
  by (simp add: handleNetworkError_def recovery_keeps_cursor_from)

subsection \<open>The retry delay\<close>

text \<open>
  C8 is not stated as a theorem: the delay is a double-precision number and the jitter a
  random draw. Over exact numbers the bounds of C8 hold, for every value in \<open>[0, 1)\<close>
  that \<open>Math.random()\<close> may return. In double precision the sum is rounded, and the
  upper bound can be attained: \<open>30000 + (1000 - 2^-43)\<close> rounds to \<open>31000\<close>.
\<close>

lemma retry_delay_exact_arithmetic:
  assumes "0 \<le> rnd" "rnd < 1"
  shows "min (initialRetryDelay * 2 ^ n) maxRetryDelay
           \<le> calculateRetryDelay initialRetryDelay maxRetryDelay n rnd
         \<and> calculateRetryDelay initialRetryDelay maxRetryDelay n rnd
           < min (initialRetryDelay * 2 ^ n) maxRetryDelay + 1000"
  using assms by (simp add: calculateRetryDelay_def)

end
